theory Spec2Isabelle
  imports Complex_Main "HOL-Library.Multiset"
begin

section \<open>JavaScript strings and arrays\<close>

text \<open>
  A JavaScript string is a sequence of UTF-16 code units. The model covers the code units
  below 256 (the Latin-1 block), which are the values of HOL's \<open>char\<close>; \<open>length\<close>
  counts code units, as the \<open>length\<close> property of a string does.
\<close>

definition code_unit :: "char \<Rightarrow> nat" where
  "code_unit c = of_char c"

text \<open>
  \<open>toLowerCase\<close> on Latin-1: \<open>A\<close>..\<open>Z\<close> and the accented capitals U+00C0..U+00DE
  (U+00D7, the multiplication sign, apart) move up by 32; everything else stays.
\<close>

definition toLowerCase_unit :: "char \<Rightarrow> char" where
  "toLowerCase_unit c =
     (let n = code_unit c
      in if (65 \<le> n \<and> n \<le> 90) \<or> (192 \<le> n \<and> n \<le> 214) \<or> (216 \<le> n \<and> n \<le> 222)
         then char_of (n + 32) else c)"

definition toLowerCase :: "string \<Rightarrow> string" where
  "toLowerCase s = map toLowerCase_unit s"

text \<open>The character class \<open>[a-z0-9]\<close> of the two regular expressions.\<close>

definition is_az09 :: "char \<Rightarrow> bool" where
  "is_az09 c = (let n = code_unit c in (97 \<le> n \<and> n \<le> 122) \<or> (48 \<le> n \<and> n \<le> 57))"

text \<open>
  \<open>trim\<close> removes white space and line terminators at both ends; below 256 these are
  U+0009..U+000D, the space and the no-break space U+00A0.
\<close>

definition is_space :: "char \<Rightarrow> bool" where
  "is_space c = (let n = code_unit c in (9 \<le> n \<and> n \<le> 13) \<or> n = 32 \<or> n = 160)"

definition trim :: "string \<Rightarrow> string" where
  "trim s = rev (dropWhile is_space (rev (dropWhile is_space s)))"

text \<open>
  An assignment \<open>xs[i] = v\<close> to a JavaScript array: inside the array it overwrites, at
  \<open>i = length\<close> it appends, and further out it extends the array, leaving empty slots
  that read as \<open>undefined\<close>; HOL's unspecified value stands for those.
\<close>

definition js_set :: "'a list \<Rightarrow> nat \<Rightarrow> 'a \<Rightarrow> 'a list" where
  "js_set xs i v =
     (if i < length xs then xs[i := v]
      else xs @ replicate (i - length xs) undefined @ [v])"

section \<open>ProductMatcher\<close>

subsection \<open>levenshteinDistance\<close>

text \<open>The first loop: \<open>for (i = 0; i <= str2.length; i++) matrix[i] = [i]\<close>.\<close>

function init_rows :: "nat \<Rightarrow> nat \<Rightarrow> nat list list \<Rightarrow> nat list list" where
  "init_rows n2 i matrix =
     (if i \<le> n2 then init_rows n2 (i + 1) (js_set matrix i [i]) else matrix)"
  by pat_completeness auto
termination
  by (relation "measure (\<lambda>(n2, i, matrix). Suc n2 - i)") auto

text \<open>The second loop: \<open>for (j = 0; j <= str1.length; j++) matrix[0][j] = j\<close>.\<close>

function init_cols :: "nat \<Rightarrow> nat \<Rightarrow> nat list list \<Rightarrow> nat list list" where
  "init_cols n1 j matrix =
     (if j \<le> n1 then init_cols n1 (j + 1) (matrix[0 := js_set (matrix ! 0) j j])
      else matrix)"
  by pat_completeness auto
termination
  by (relation "measure (\<lambda>(n1, j, matrix). Suc n1 - j)") auto

text \<open>The body of the nested loops: the value stored in \<open>matrix[i][j]\<close>.\<close>

definition cell :: "string \<Rightarrow> string \<Rightarrow> nat list list \<Rightarrow> nat \<Rightarrow> nat \<Rightarrow> nat" where
  "cell str1 str2 matrix i j =
     (if str2 ! (i - 1) = str1 ! (j - 1) then matrix ! (i - 1) ! (j - 1)
      else min (matrix ! (i - 1) ! (j - 1) + 1)
             (min (matrix ! i ! (j - 1) + 1) (matrix ! (i - 1) ! j + 1)))"

function fill_row :: "string \<Rightarrow> string \<Rightarrow> nat \<Rightarrow> nat \<Rightarrow> nat list list \<Rightarrow> nat list list" where
  "fill_row str1 str2 i j matrix =
     (if j \<le> length str1
      then fill_row str1 str2 i (j + 1)
             (matrix[i := js_set (matrix ! i) j (cell str1 str2 matrix i j)])
      else matrix)"
  by pat_completeness auto
termination
  by (relation "measure (\<lambda>(str1, str2, i, j, matrix). Suc (length str1) - j)") auto

function fill_rows :: "string \<Rightarrow> string \<Rightarrow> nat \<Rightarrow> nat list list \<Rightarrow> nat list list" where
  "fill_rows str1 str2 i matrix =
     (if i \<le> length str2
      then fill_rows str1 str2 (i + 1) (fill_row str1 str2 i 1 matrix)
      else matrix)"
  by pat_completeness auto
termination
  by (relation "measure (\<lambda>(str1, str2, i, matrix). Suc (length str2) - i)") auto

definition levenshteinDistance :: "string \<Rightarrow> string \<Rightarrow> nat" where
  "levenshteinDistance str1 str2 =
     (let matrix = init_rows (length str2) 0 [];
          matrix = init_cols (length str1) 0 matrix;
          matrix = fill_rows str1 str2 1 matrix
      in matrix ! length str2 ! length str1)"

subsection \<open>normalizeText\<close>

definition normalizeText :: "string \<Rightarrow> string" where
  "normalizeText text = trim (filter is_az09 (toLowerCase text))"

subsection \<open>Numbers\<close>

text \<open>
  A JavaScript number is an IEEE 754 double; the finite doubles are rationals. The
  similarity score is rounded to an integer and compared with a threshold, so the model
  rounds its quotient and its product as the machine does: \<open>to_double\<close> is
  round-to-nearest, ties-to-even, on a 53-bit significand. \<open>ulp_shift\<close> finds the
  exponent: the least \<open>k\<close> with \<open>2 ^ 52 \<le> \<bar>x\<bar> * 2 ^ k\<close>, capped at 1074 where the
  subnormal doubles begin. The function is the machine's rounding for \<open>\<bar>x\<bar> < 2 ^ 53\<close>,
  which covers every value computed for the score (quotients in \<open>[0, 1]\<close>, products in
  \<open>[0, 100]\<close>); string lengths, at most \<open>2 ^ 53 - 1\<close>, are exact. The threshold
  of \<open>findMatches\<close> is a finite number, taken as a rational.
\<close>

definition round_half_even :: "rat \<Rightarrow> int" where
  "round_half_even x =
     (let n = \<lfloor>x\<rfloor>; r = x - of_int n
      in if r < 1 / 2 then n else if 1 / 2 < r then n + 1 else if even n then n else n + 1)"

fun ulp_shift :: "nat \<Rightarrow> rat \<Rightarrow> nat" where
  "ulp_shift 0 x = 0"
| "ulp_shift (Suc fuel) x = (if 2 ^ 52 \<le> x then 0 else Suc (ulp_shift fuel (2 * x)))"

definition to_double :: "rat \<Rightarrow> rat" where
  "to_double x =
     (let k = ulp_shift 1074 \<bar>x\<bar>
      in sgn x * of_int (round_half_even (\<bar>x\<bar> * 2 ^ k)) / 2 ^ k)"

definition js_div :: "rat \<Rightarrow> rat \<Rightarrow> rat" where
  "js_div a b = to_double (a / b)"

definition js_mul :: "rat \<Rightarrow> rat \<Rightarrow> rat" where
  "js_mul a b = to_double (a * b)"

text \<open>\<open>Math.round\<close>: the nearest integer, a tie going towards \<open>+\<infinity>\<close>.\<close>

definition Math_round :: "rat \<Rightarrow> int" where
  "Math_round x = \<lfloor>x + 1 / 2\<rfloor>"

text \<open>
  Prices, rates, volumes and market caps are doubles that need not be finite: a
  \<open>number\<close> is a finite double, the negative zero, an infinity or \<open>NaN\<close>, and
  \<open>Finite 0\<close> is the positive zero. \<open>to_number neg m\<close> is the double for an exact
  result of magnitude \<open>m\<close> and of negative sign when \<open>neg\<close> holds. A magnitude of
  \<open>2 ^ 1024 - 2 ^ 970\<close> or more, halfway between the largest double and
  \<open>2 ^ 1024\<close>, overflows to an infinity. Below \<open>2 ^ 53\<close> the magnitude is rounded by
  \<open>to_double\<close>; from there on the doubles are the multiples of \<open>2 ^ k\<close> for the least
  \<open>k\<close> with \<open>m / 2 ^ k < 2 ^ 53\<close>, which \<open>down_shift\<close> finds, and the rounding is
  again to the nearest, ties to even. A result that rounds to zero keeps its sign.
\<close>

datatype number = Finite rat | NegZero | PosInf | NegInf | NaN

fun negative :: "number \<Rightarrow> bool" where
  "negative (Finite x) \<longleftrightarrow> x < 0"
| "negative NegZero \<longleftrightarrow> True"
| "negative PosInf \<longleftrightarrow> False"
| "negative NegInf \<longleftrightarrow> True"
| "negative NaN \<longleftrightarrow> False"

fun magnitude :: "number \<Rightarrow> rat" where
  "magnitude (Finite x) = \<bar>x\<bar>"
| "magnitude NegZero = 0"
| "magnitude PosInf = 0"
| "magnitude NegInf = 0"
| "magnitude NaN = 0"

fun exact :: "number \<Rightarrow> rat" where
  "exact (Finite x) = x"
| "exact NegZero = 0"
| "exact PosInf = 0"
| "exact NegInf = 0"
| "exact NaN = 0"

definition is_infinity :: "number \<Rightarrow> bool" where
  "is_infinity x \<longleftrightarrow> x = PosInf \<or> x = NegInf"

definition signed_zero :: "bool \<Rightarrow> number" where
  "signed_zero neg = (if neg then NegZero else Finite 0)"

definition signed_infinity :: "bool \<Rightarrow> number" where
  "signed_infinity neg = (if neg then NegInf else PosInf)"

fun down_shift :: "nat \<Rightarrow> rat \<Rightarrow> nat" where
  "down_shift 0 x = 0"
| "down_shift (Suc fuel) x = (if x < 2 ^ 53 then 0 else Suc (down_shift fuel (x / 2)))"

definition round_magnitude :: "rat \<Rightarrow> rat" where
  "round_magnitude m =
     (if m < 2 ^ 53 then to_double m
      else let k = down_shift 971 m in of_int (round_half_even (m / 2 ^ k)) * 2 ^ k)"

definition to_number :: "bool \<Rightarrow> rat \<Rightarrow> number" where
  "to_number neg m =
     (if 2 ^ 1024 - 2 ^ 970 \<le> m then signed_infinity neg
      else let d = round_magnitude m
           in if d = 0 then signed_zero neg else Finite (if neg then - d else d))"

text \<open>
  \<open>a + b\<close> and \<open>a / b\<close> on doubles. \<open>NaN\<close> is contagious; the sum of two
  infinities of opposite sign and the quotients \<open>\<infinity> / \<infinity>\<close> and \<open>0 / 0\<close> are
  \<open>NaN\<close>. An exact sum of zero is the positive zero, unless both terms are negative
  (zeros). The sign of a quotient is the product of the signs, also for a quotient that
  is a zero or an infinity; a nonzero number divided by a zero is an infinity.
\<close>

definition number_add :: "number \<Rightarrow> number \<Rightarrow> number" where
  "number_add a b =
     (if a = NaN \<or> b = NaN then NaN
      else if is_infinity a
      then if is_infinity b \<and> negative a \<noteq> negative b then NaN else a
      else if is_infinity b then b
      else let v = exact a + exact b
           in if v = 0 then signed_zero (negative a \<and> negative b)
              else to_number (v < 0) \<bar>v\<bar>)"

definition number_div :: "number \<Rightarrow> number \<Rightarrow> number" where
  "number_div a b =
     (if a = NaN \<or> b = NaN then NaN
      else let neg = (negative a \<noteq> negative b)
           in if is_infinity a
              then if is_infinity b then NaN else signed_infinity neg
              else if is_infinity b then signed_zero neg
              else if magnitude b = 0
              then if magnitude a = 0 then NaN else signed_infinity neg
              else to_number neg (magnitude a / magnitude b))"

text \<open>The numbers that count as false: the two zeros and \<open>NaN\<close>.\<close>

definition falsy :: "number \<Rightarrow> bool" where
  "falsy x \<longleftrightarrow> x = Finite 0 \<or> x = NegZero \<or> x = NaN"

subsection \<open>calculateSimilarity\<close>

definition calculateSimilarity :: "string \<Rightarrow> string \<Rightarrow> int" where
  "calculateSimilarity name1 name2 =
     (let norm1 = normalizeText name1;
          norm2 = normalizeText name2
      in if norm1 = norm2 then 100
         else
           let distance = levenshteinDistance norm1 norm2;
               maxLength = max (length norm1) (length norm2)
           in if maxLength = 0 then 0
              else
                let similarity =
                      js_mul (js_div (of_nat maxLength - of_nat distance) (of_nat maxLength)) 100
                in Math_round similarity)"

subsection \<open>Records and maps\<close>

typedecl unknown

record RawAssetData =
  source :: string
  externalId :: string
  name :: string
  symbol :: "string option"
  price :: number
  currency :: string
  volume :: "number option"
  marketCap :: "number option"
  metadata :: "(string \<times> unknown) list option"

text \<open>
  A JavaScript \<open>Map\<close> keeps its entries in insertion order; \<open>set\<close> on a key that is
  present replaces the value where the entry stands, and on a new key appends an entry.
\<close>

fun map_set :: "('k \<times> 'v) list \<Rightarrow> 'k \<Rightarrow> 'v \<Rightarrow> ('k \<times> 'v) list" where
  "map_set [] k v = [(k, v)]"
| "map_set ((k', v') # m) k v = (if k' = k then (k, v) # m else (k', v') # map_set m k v)"

definition map_get :: "('k \<times> 'v) list \<Rightarrow> 'k \<Rightarrow> 'v option" where
  "map_get m k = map_of m k"

subsection \<open>findMatches\<close>

text \<open>
  The inner loop, \<open>for (j = i + 1; j < products.length; j++)\<close>, with the group and the
  set of processed indices it updates. The group is \<open>grp\<close> here, \<open>group\<close> being a
  constant of HOL; the threshold is a finite number.
\<close>

function scan_candidates ::
  "RawAssetData list \<Rightarrow> rat \<Rightarrow> nat \<Rightarrow> nat \<Rightarrow> RawAssetData list \<Rightarrow> nat set
     \<Rightarrow> RawAssetData list \<times> nat set" where
  "scan_candidates products threshold i j grp processed =
     (if j < length products
      then if j \<in> processed
           then scan_candidates products threshold i (j + 1) grp processed
           else
             let similarity =
                   calculateSimilarity (RawAssetData.name (products ! i))
                     (RawAssetData.name (products ! j))
             in if threshold \<le> of_int similarity
                then scan_candidates products threshold i (j + 1)
                       (grp @ [products ! j]) (insert j processed)
                else scan_candidates products threshold i (j + 1) grp processed
      else (grp, processed))"
  by pat_completeness auto
termination
  by (relation "measure (\<lambda>(products, threshold, i, j, grp, processed). length products - j)")
     auto

text \<open>The outer loop, \<open>for (i = 0; i < products.length; i++)\<close>.\<close>

function seed_groups ::
  "RawAssetData list \<Rightarrow> rat \<Rightarrow> nat \<Rightarrow> (string \<times> RawAssetData list) list \<Rightarrow> nat set
     \<Rightarrow> (string \<times> RawAssetData list) list" where
  "seed_groups products threshold i matches processed =
     (if i < length products
      then if i \<in> processed
           then seed_groups products threshold (i + 1) matches processed
           else
             case scan_candidates products threshold i (i + 1) [products ! i]
                    (insert i processed) of
               (grp, processed') \<Rightarrow>
                 let canonicalName = RawAssetData.name (products ! i)
                 in seed_groups products threshold (i + 1)
                      (map_set matches canonicalName grp) processed'
      else matches)"
  by pat_completeness auto
termination
  by (relation "measure (\<lambda>(products, threshold, i, matches, processed). length products - i)")
     auto

definition findMatches ::
  "RawAssetData list \<Rightarrow> rat \<Rightarrow> (string \<times> RawAssetData list) list" where
  "findMatches products threshold = seed_groups products threshold 0 [] {}"

section \<open>DataAggregator\<close>

text \<open>
  A value that is thrown, or given as the reason of a rejection, is taken by what
  \<open>console.error\<close> does when it formats the value: \<open>Printable m\<close> is a value that is
  printed (an \<open>Error\<close> of message \<open>m\<close>, a string), \<open>Unprintable e\<close> is an object
  whose formatting throws \<open>e\<close> (its inspect hook throws, for instance).
\<close>

datatype js_error = Printable string | Unprintable js_error

fun console_error :: "string \<Rightarrow> js_error \<Rightarrow> js_error + unit" where
  "console_error message (Printable m) = Inr ()"
| "console_error message (Unprintable e) = Inl e"

text \<open>
  A promise is taken by how it ends: fulfilled with a value, rejected with a reason, or
  never settled.
\<close>

datatype 'a promise = Fulfilled 'a | Rejected js_error | Pending

datatype source_type = crypto | ecommerce | realestate

text \<open>
  An adapter's \<open>fetchData\<close> is taken by its outcome in the call at hand: the promise it
  returns is fulfilled with the adapter's records, is rejected (or the function throws),
  or never settles.
\<close>

record DataSource =
  name :: string
  type :: source_type
  fetchData :: "RawAssetData list promise"
  rateLimit :: nat

record NormalizedAsset =
  id :: string
  name :: string
  symbol :: string
  price :: number
  change24h :: number
  volume :: number
  marketCap :: number
  sources :: "string list"
  lastUpdated :: nat

record DataAggregator =
  sources :: "DataSource list"
  exchangeRates :: "(string \<times> number) list"

definition new_DataAggregator :: DataAggregator where
  "new_DataAggregator = \<lparr>sources = [], exchangeRates = [(''USD'', Finite 1)]\<rparr>"

text \<open>
  Every method takes the aggregator and returns it with its result, so that what a call
  does to the aggregator's fields can be stated. A parameter that has the name of a record
  field is written with a prime.
\<close>

definition registerSource :: "DataAggregator \<Rightarrow> DataSource \<Rightarrow> DataAggregator" where
  "registerSource this source' =
     this\<lparr>DataAggregator.sources := DataAggregator.sources this @ [source']\<rparr>"

text \<open>\<open>rates\<close> is the list \<open>Object.entries(rates)\<close>.\<close>

definition updateExchangeRates ::
  "DataAggregator \<Rightarrow> (string \<times> number) list \<Rightarrow> DataAggregator" where
  "updateExchangeRates this rates =
     this\<lparr>exchangeRates := fold (\<lambda>(currency, rate) m. map_set m currency rate) rates
                               (exchangeRates this)\<rparr>"

text \<open>
  \<open>x || d\<close> on an optional number and on an optional string: \<open>undefined\<close>, the
  zeros, \<open>NaN\<close> and the empty string are falsy.
\<close>

definition num_or :: "number option \<Rightarrow> number \<Rightarrow> number" where
  "num_or x d = (case x of None \<Rightarrow> d | Some v \<Rightarrow> if falsy v then d else v)"

definition str_or :: "string option \<Rightarrow> string \<Rightarrow> string" where
  "str_or x d = (case x of None \<Rightarrow> d | Some v \<Rightarrow> if v = [] then d else v)"

definition convertToUSD :: "DataAggregator \<Rightarrow> number \<Rightarrow> string \<Rightarrow> number" where
  "convertToUSD this price' currency' =
     (let rate = num_or (map_get (exchangeRates this) currency') (Finite 1)
      in number_div price' rate)"

text \<open>
  The wrapper around each adapter, \<open>try { return await source.fetchData() } catch
  (error) { console.error(..., error); return [] }\<close>. An exception of the log call in
  the handler leaves the wrapper, whose promise is then rejected.
\<close>

definition guarded_fetch :: "DataSource \<Rightarrow> RawAssetData list promise" where
  "guarded_fetch source' =
     (case fetchData source' of
        Fulfilled records \<Rightarrow> Fulfilled records
      | Rejected error \<Rightarrow>
          (case console_error (''Error fetching from '' @ DataSource.name source' @ '':'') error of
             Inl thrown \<Rightarrow> Rejected thrown
           | Inr logged \<Rightarrow> Fulfilled [])
      | Pending \<Rightarrow> Pending)"

text \<open>
  \<open>Promise.all\<close> is rejected as soon as one of its promises is, also while others have
  not settled; otherwise it is fulfilled, with the values in the order of the promises,
  once all of them are. When several promises are rejected the reason is that of the one
  rejected first in time; the model gives the one that stands first.
\<close>

fun Promise_all :: "'a promise list \<Rightarrow> 'a list promise" where
  "Promise_all [] = Fulfilled []"
| "Promise_all (p # ps) =
     (case p of
        Rejected e \<Rightarrow> Rejected e
      | Pending \<Rightarrow> (case Promise_all ps of Rejected e \<Rightarrow> Rejected e | other \<Rightarrow> Pending)
      | Fulfilled v \<Rightarrow>
          (case Promise_all ps of
             Rejected e \<Rightarrow> Rejected e
           | Pending \<Rightarrow> Pending
           | Fulfilled vs \<Rightarrow> Fulfilled (v # vs)))"

definition fetchAllSources ::
  "DataAggregator \<Rightarrow> RawAssetData list promise \<times> DataAggregator" where
  "fetchAllSources this =
     (let promises = map guarded_fetch (DataAggregator.sources this)
      in case Promise_all promises of
           Fulfilled results \<Rightarrow> (Fulfilled (concat results), this)
         | Rejected e \<Rightarrow> (Rejected e, this)
         | Pending \<Rightarrow> (Pending, this))"

subsection \<open>generateId\<close>

definition replace_non_az09 :: "string \<Rightarrow> string" where
  "replace_non_az09 s = map (\<lambda>c. if is_az09 c then c else CHR ''-'') s"

text \<open>\<open>replace(/-+/g, '-')\<close>: every maximal run of dashes becomes one dash.\<close>

function collapse_dashes :: "string \<Rightarrow> string" where
  "collapse_dashes [] = []"
| "collapse_dashes (c # cs) =
     (if c = CHR ''-'' then CHR ''-'' # collapse_dashes (dropWhile (\<lambda>d. d = CHR ''-'') cs)
      else c # collapse_dashes cs)"
  by pat_completeness auto
termination
  by (relation "measure length") (auto simp: length_dropWhile_le less_Suc_eq_le)

text \<open>
  \<open>replace(/^-|-$/g, '')\<close>: one dash at the start and one dash at the end are removed
  (a single dash that is both is removed once).
\<close>

definition strip_edge_dashes :: "string \<Rightarrow> string" where
  "strip_edge_dashes s =
     (let s1 = (case s of [] \<Rightarrow> [] | c # cs \<Rightarrow> if c = CHR ''-'' then cs else s)
      in if s1 \<noteq> [] \<and> last s1 = CHR ''-'' then butlast s1 else s1)"

definition generateId :: "string \<Rightarrow> string" where
  "generateId name' =
     strip_edge_dashes (collapse_dashes (replace_non_az09 (toLowerCase name')))"

subsection \<open>aggregateData\<close>

text \<open>\<open>[...new Set(xs)]\<close>: the distinct elements, each where it first occurs.\<close>

definition js_unique :: "'a list \<Rightarrow> 'a list" where
  "js_unique xs = fold (\<lambda>x seen. if x \<in> set seen then seen else seen @ [x]) xs []"

text \<open>
  The body of \<open>matches.forEach\<close> for one group. \<open>group[0].symbol\<close> throws a
  \<open>TypeError\<close> on an empty group; \<open>now\<close> is the value of \<open>new Date()\<close>.
\<close>

definition normalize_group ::
  "DataAggregator \<Rightarrow> nat \<Rightarrow> string \<times> RawAssetData list \<Rightarrow> js_error + NormalizedAsset" where
  "normalize_group this now entry =
     (case entry of (canonicalName, grp) \<Rightarrow>
        let prices = map (\<lambda>item. convertToUSD this (RawAssetData.price item) (currency item)) grp;
            avgPrice =
              number_div (foldl (\<lambda>a b. number_add a b) (Finite 0) prices)
                (Finite (of_nat (length prices)));
            totalVolume =
              foldl (\<lambda>sum item. number_add sum (num_or (RawAssetData.volume item) (Finite 0)))
                (Finite 0) grp;
            totalMarketCap =
              foldl (\<lambda>sum item. number_add sum (num_or (RawAssetData.marketCap item) (Finite 0)))
                (Finite 0) grp;
            sources' = js_unique (map source grp)
        in (case grp of
              [] \<Rightarrow> Inl (Printable ''TypeError'')
            | first # rest \<Rightarrow>
                Inr \<lparr>id = generateId canonicalName,
                     name = canonicalName,
                     symbol = str_or (RawAssetData.symbol first) [],
                     price = avgPrice,
                     change24h = Finite 0,
                     volume = totalVolume,
                     marketCap = totalMarketCap,
                     sources = sources',
                     lastUpdated = now\<rparr>))"

text \<open>
  \<open>forEach\<close> over the map, in insertion order; \<open>clock k\<close> is the time read for the
  \<open>k\<close>-th group. An exception in the callback ends the loop.
\<close>

fun normalize_groups ::
  "DataAggregator \<Rightarrow> (nat \<Rightarrow> nat) \<Rightarrow> nat \<Rightarrow> (string \<times> RawAssetData list) list
     \<Rightarrow> js_error + NormalizedAsset list" where
  "normalize_groups this clock k [] = Inr []"
| "normalize_groups this clock k (entry # entries) =
     (case normalize_group this (clock k) entry of
        Inl e \<Rightarrow> Inl e
      | Inr asset \<Rightarrow>
          (case normalize_groups this clock (k + 1) entries of
             Inl e \<Rightarrow> Inl e
           | Inr assets \<Rightarrow> Inr (asset # assets)))"

text \<open>
  \<open>aggregateData\<close> awaits \<open>fetchAllSources\<close>: it is rejected when that is, or when
  the loop throws, and does not settle when that does not.
\<close>

definition aggregateData ::
  "DataAggregator \<Rightarrow> (nat \<Rightarrow> nat) \<Rightarrow> NormalizedAsset list promise \<times> DataAggregator" where
  "aggregateData this clock =
     (case fetchAllSources this of
        (Fulfilled rawData, this') \<Rightarrow>
          let matches = findMatches rawData 80
          in (case normalize_groups this' clock 0 matches of
                Inl e \<Rightarrow> (Rejected e, this')
              | Inr normalized \<Rightarrow> (Fulfilled normalized, this'))
      | (Rejected e, this') \<Rightarrow> (Rejected e, this')
      | (Pending, this') \<Rightarrow> (Pending, this'))"

section \<open>Reference definitions and invariants\<close>

subsection \<open>The matcher\<close>

text \<open>
  The normalisation in the specification's words: lowercase, then drop every character
  outside \<open>[a-z0-9]\<close>.
\<close>

definition normalize_spec :: "string \<Rightarrow> string" where
  "normalize_spec text = filter is_az09 (toLowerCase text)"

text \<open>
  The Levenshtein distance as it is usually defined, by recursion on the two strings, with
  unit cost for an insertion, a deletion and a substitution.
\<close>

fun edit_distance :: "'a list \<Rightarrow> 'a list \<Rightarrow> nat" where
  "edit_distance [] ys = length ys"
| "edit_distance xs [] = length xs"
| "edit_distance (x # xs) (y # ys) =
     min (edit_distance xs ys + (if x = y then 0 else 1))
       (min (edit_distance xs (y # ys) + 1) (edit_distance (x # xs) ys + 1))"

text \<open>
  \<open>edits xs ys n\<close>: \<open>xs\<close> can be turned into \<open>ys\<close> by \<open>n\<close> single-character
  insertions, deletions and substitutions.
\<close>

inductive edits :: "'a list \<Rightarrow> 'a list \<Rightarrow> nat \<Rightarrow> bool" where
  finished: "edits [] [] 0"
| keep: "edits xs ys n \<Longrightarrow> edits (x # xs) (x # ys) n"
| substitute: "edits xs ys n \<Longrightarrow> edits (x # xs) (y # ys) (Suc n)"
| delete: "edits xs ys n \<Longrightarrow> edits (x # xs) ys (Suc n)"
| insert: "edits xs ys n \<Longrightarrow> edits xs (y # ys) (Suc n)"

text \<open>
  The entry of the dynamic-programming table at row \<open>i\<close>, column \<open>j\<close>: the distance
  between the first \<open>i\<close> characters of \<open>str2\<close> and the first \<open>j\<close> of \<open>str1\<close>.
\<close>

definition table :: "string \<Rightarrow> string \<Rightarrow> nat \<Rightarrow> nat \<Rightarrow> nat" where
  "table str1 str2 i j = edit_distance (rev (take i str2)) (rev (take j str1))"

definition row_done :: "string \<Rightarrow> string \<Rightarrow> nat list list \<Rightarrow> nat \<Rightarrow> bool" where
  "row_done str1 str2 matrix r \<longleftrightarrow>
     length (matrix ! r) = Suc (length str1) \<and>
     (\<forall>c \<le> length str1. matrix ! r ! c = table str1 str2 r c)"

definition fill_inv :: "string \<Rightarrow> string \<Rightarrow> nat \<Rightarrow> nat \<Rightarrow> nat list list \<Rightarrow> bool" where
  "fill_inv str1 str2 i j matrix \<longleftrightarrow>
     length matrix = Suc (length str2) \<and>
     (\<forall>r < i. row_done str1 str2 matrix r) \<and>
     length (matrix ! i) = j \<and>
     (\<forall>c < j. matrix ! i ! c = table str1 str2 i c) \<and>
     (\<forall>r. i < r \<and> r \<le> length str2 \<longrightarrow> matrix ! r = [r])"

definition rows_inv :: "string \<Rightarrow> string \<Rightarrow> nat \<Rightarrow> nat list list \<Rightarrow> bool" where
  "rows_inv str1 str2 i matrix \<longleftrightarrow>
     length matrix = Suc (length str2) \<and>
     (\<forall>r < i. row_done str1 str2 matrix r) \<and>
     (\<forall>r. i \<le> r \<and> r \<le> length str2 \<longrightarrow> matrix ! r = [r])"

text \<open>
  The score of two different normalised names, from the larger length and the distance, as
  \<open>calculateSimilarity\<close> computes it.
\<close>

definition score :: "nat \<Rightarrow> nat \<Rightarrow> int" where
  "score maxLength distance =
     Math_round (js_mul (js_div (of_nat maxLength - of_nat distance) (of_nat maxLength)) 100)"

text \<open>The score \<open>findMatches\<close> computes for the records at two indices.\<close>

definition sim :: "RawAssetData list \<Rightarrow> nat \<Rightarrow> nat \<Rightarrow> int" where
  "sim products i j =
     calculateSimilarity (RawAssetData.name (products ! i)) (RawAssetData.name (products ! j))"

text \<open>
  An entry of the result is anchored: its group starts with a seed, the key is the seed's
  name as it stands, and every other member comes later in the input and scores at least
  the threshold against the seed.
\<close>

definition anchored :: "RawAssetData list \<Rightarrow> rat \<Rightarrow> string \<times> RawAssetData list \<Rightarrow> bool" where
  "anchored products threshold entry \<longleftrightarrow>
     (\<exists>i js. i < length products \<and>
        fst entry = RawAssetData.name (products ! i) \<and>
        snd entry = products ! i # map (\<lambda>j. products ! j) js \<and>
        (\<forall>j \<in> set js. i < j \<and> j < length products \<and> threshold \<le> of_int (sim products i j)))"

text \<open>
  The clustering in the specification's words, on the indices of the input: the first
  index not yet assigned seeds a group, every later unassigned index that joins the seed
  (scores at least the threshold against it) is added to the group, and the rest stays
  unassigned. A group of indices gives an entry of the map: the seed's name as it stands,
  and the records at the indices.
\<close>

definition joins :: "RawAssetData list \<Rightarrow> rat \<Rightarrow> nat \<Rightarrow> nat \<Rightarrow> bool" where
  "joins products threshold i j \<longleftrightarrow> threshold \<le> of_int (sim products i j)"

function cluster :: "(nat \<Rightarrow> nat \<Rightarrow> bool) \<Rightarrow> nat list \<Rightarrow> nat list list" where
  "cluster joining [] = []"
| "cluster joining (i # unassigned) =
     (i # filter (joining i) unassigned) #
     cluster joining (filter (\<lambda>j. \<not> joining i j) unassigned)"
  by pat_completeness auto
termination
  by (relation "measure (\<lambda>(joining, unassigned). length unassigned)")
     (auto simp: less_Suc_eq_le)

definition group_of :: "RawAssetData list \<Rightarrow> nat list \<Rightarrow> string \<times> RawAssetData list" where
  "group_of products members =
     (RawAssetData.name (products ! hd members), map (\<lambda>k. products ! k) members)"

subsection \<open>Example input\<close>

definition example_record :: "string \<Rightarrow> string \<Rightarrow> RawAssetData" where
  "example_record source' name' =
     \<lparr>source = source', externalId = ''1'', name = name', symbol = None, price = Finite 1,
      currency = ''USD'', volume = None, marketCap = None, metadata = None\<rparr>"

subsection \<open>The aggregator\<close>

text \<open>
  What the adapters contribute, in the specification's words: the records of each adapter
  in registration order, an adapter whose fetch fails contributing none.
\<close>

definition fetched_records :: "DataAggregator \<Rightarrow> RawAssetData list" where
  "fetched_records this =
     concat (map (\<lambda>s. case fetchData s of
                         Fulfilled records \<Rightarrow> records | Rejected e \<Rightarrow> [] | Pending \<Rightarrow> [])
       (DataAggregator.sources this))"

text \<open>The failure of an adapter, if it fails, is logged without an exception.\<close>

definition logged_quietly :: "DataSource \<Rightarrow> bool" where
  "logged_quietly s =
     (case fetchData s of
        Fulfilled records \<Rightarrow> True
      | Rejected error \<Rightarrow>
          console_error (''Error fetching from '' @ DataSource.name s @ '':'') error = Inr ()
      | Pending \<Rightarrow> True)"

text \<open>
  The rate of a currency as C3 words it, the table's entry or 1 where there is none, and
  as the code has it, where an entry that is a zero or \<open>NaN\<close> counts as none.
\<close>

definition rate_spec :: "(string \<times> number) list \<Rightarrow> string \<Rightarrow> number" where
  "rate_spec rates c = (case map_of rates c of None \<Rightarrow> Finite 1 | Some r \<Rightarrow> r)"

definition rate_of :: "(string \<times> number) list \<Rightarrow> string \<Rightarrow> number" where
  "rate_of rates c =
     (case map_of rates c of None \<Rightarrow> Finite 1 | Some r \<Rightarrow> if falsy r then Finite 1 else r)"

text \<open>
  The sum and the unweighted mean of a list of doubles as double arithmetic gives them:
  the terms are added to 0 one by one from the left, each sum rounded, and the mean is
  the rounded quotient of that sum by the number of terms.
\<close>

definition double_sum :: "number list \<Rightarrow> number" where
  "double_sum xs = foldl number_add (Finite 0) xs"

definition double_mean :: "number list \<Rightarrow> number" where
  "double_mean xs = number_div (double_sum xs) (Finite (of_nat (length xs)))"

text \<open>
  A number of the model is a double when rounding leaves it as it is. The sums of
  \<open>xs\<close>, added to \<open>a\<close> one by one, are exact when each of them is a double.
\<close>

definition is_double :: "number \<Rightarrow> bool" where
  "is_double x =
     (case x of
        Finite r \<Rightarrow> to_number (r < 0) \<bar>r\<bar> = Finite r
      | NegZero \<Rightarrow> True | PosInf \<Rightarrow> True | NegInf \<Rightarrow> True | NaN \<Rightarrow> True)"

fun exact_sums :: "rat \<Rightarrow> rat list \<Rightarrow> bool" where
  "exact_sums a [] \<longleftrightarrow> True"
| "exact_sums a (x # xs) \<longleftrightarrow> is_double (Finite (a + x)) \<and> exact_sums (a + x) xs"

text \<open>The asset that \<open>normalize_group\<close> emits for a group that is not empty.\<close>

definition group_asset ::
  "DataAggregator \<Rightarrow> nat \<Rightarrow> string \<times> RawAssetData list \<Rightarrow> NormalizedAsset" where
  "group_asset this now entry =
     \<lparr>id = generateId (fst entry),
      name = fst entry,
      symbol = str_or (RawAssetData.symbol (hd (snd entry))) [],
      price = double_mean
                (map (\<lambda>item. convertToUSD this (RawAssetData.price item) (currency item))
                   (snd entry)),
      change24h = Finite 0,
      volume = double_sum (map (\<lambda>item. num_or (RawAssetData.volume item) (Finite 0)) (snd entry)),
      marketCap =
        double_sum (map (\<lambda>item. num_or (RawAssetData.marketCap item) (Finite 0)) (snd entry)),
      sources = js_unique (map source (snd entry)),
      lastUpdated = now\<rparr>"

text \<open>The assets that \<open>aggregateData\<close> emits for the records fetched.\<close>

definition emitted_assets :: "DataAggregator \<Rightarrow> (nat \<Rightarrow> nat) \<Rightarrow> NormalizedAsset list" where
  "emitted_assets this clock =
     map (\<lambda>(i, e). group_asset this (clock i) e)
       (zip [0..<length (findMatches (fetched_records this) 80)]
          (findMatches (fetched_records this) 80))"

text \<open>
  The slug in the specification's words: lowercase; every maximal run of characters
  outside \<open>[a-z0-9]\<close> becomes a single dash (a character of such a run is dropped when
  the run goes on, and becomes the dash when it is the last of the run); all dashes at
  both ends are trimmed.
\<close>

fun collapse_runs :: "string \<Rightarrow> string" where
  "collapse_runs [] = []"
| "collapse_runs [c] = (if is_az09 c then [c] else [CHR ''-''])"
| "collapse_runs (c # d # cs) =
     (if is_az09 c then c # collapse_runs (d # cs)
      else if is_az09 d then CHR ''-'' # collapse_runs (d # cs)
      else collapse_runs (d # cs))"

definition trim_dashes :: "string \<Rightarrow> string" where
  "trim_dashes s =
     rev (dropWhile (\<lambda>c. c = CHR ''-'') (rev (dropWhile (\<lambda>c. c = CHR ''-'') s)))"

definition slug_spec :: "string \<Rightarrow> string" where
  "slug_spec name' = trim_dashes (collapse_runs (toLowerCase name'))"

fun single_dashes :: "string \<Rightarrow> bool" where
  "single_dashes (c # d # cs) \<longleftrightarrow> \<not> (c = CHR ''-'' \<and> d = CHR ''-'') \<and> single_dashes (d # cs)"
| "single_dashes cs \<longleftrightarrow> True"

subsection \<open>Example aggregators\<close>

definition btc_binance :: RawAssetData where
  "btc_binance =
     \<lparr>source = ''Binance'', externalId = ''BTCUSDT'', name = ''Bitcoin'', symbol = Some ''BTC'',
      price = Finite 100, currency = ''USD'', volume = Some (Finite 10), marketCap = None,
      metadata = None\<rparr>"

definition xrp_binance :: RawAssetData where
  "xrp_binance =
     \<lparr>source = ''Binance'', externalId = ''XRPUSDT'', name = ''XRP'', symbol = None,
      price = Finite 2, currency = ''USD'', volume = None, marketCap = None, metadata = None\<rparr>"

definition btc_coingecko :: RawAssetData where
  "btc_coingecko =
     \<lparr>source = ''CoinGecko'', externalId = ''bitcoin'', name = ''BitCoin'', symbol = Some ''XBT'',
      price = Finite 90, currency = ''EUR'', volume = Some (Finite 20),
      marketCap = Some (Finite 5), metadata = None\<rparr>"

definition example_source :: "string \<Rightarrow> RawAssetData list promise \<Rightarrow> DataSource" where
  "example_source name' outcome =
     \<lparr>DataSource.name = name', type = crypto, fetchData = outcome, rateLimit = 50\<rparr>"

text \<open>
  Three adapters, the second of which fails, and a rate of 0.75 for the euro; one adapter
  with the euro's rate stored as 0; a table with the euro's rate stored as \<open>NaN\<close>; and
  two adapters, the first of which fails with a reason that cannot be printed.
\<close>

definition example_aggregator :: DataAggregator where
  "example_aggregator =
     updateExchangeRates
       (registerSource
         (registerSource
           (registerSource new_DataAggregator
             (example_source ''Binance'' (Fulfilled [btc_binance, xrp_binance])))
           (example_source ''Kraken'' (Rejected (Printable ''timeout''))))
         (example_source ''CoinGecko'' (Fulfilled [btc_coingecko])))
       [(''EUR'', Finite (3 / 4))]"

definition zero_rate_aggregator :: DataAggregator where
  "zero_rate_aggregator =
     updateExchangeRates
       (registerSource new_DataAggregator
         (example_source ''CoinGecko'' (Fulfilled [btc_coingecko])))
       [(''EUR'', Finite 0)]"

definition nan_rate_aggregator :: DataAggregator where
  "nan_rate_aggregator = updateExchangeRates new_DataAggregator [(''EUR'', NaN)]"

definition unprintable_aggregator :: DataAggregator where
  "unprintable_aggregator =
     registerSource
       (registerSource new_DataAggregator
         (example_source ''Kraken'' (Rejected (Unprintable (Printable ''inspect failed'')))))
       (example_source ''CoinGecko'' (Fulfilled [btc_coingecko]))"

text \<open>
  The doubles written \<open>0.1\<close>, \<open>0.2\<close>, \<open>0.9\<close> and \<open>1e308\<close>, and two records of one
  name priced \<open>0.1\<close> and \<open>0.2\<close> dollars.
\<close>

definition double_0_1 :: number where
  "double_0_1 = Finite (3602879701896397 / 36028797018963968)"

definition double_0_2 :: number where
  "double_0_2 = Finite (3602879701896397 / 18014398509481984)"

definition double_0_9 :: number where
  "double_0_9 = Finite (8106479329266893 / 9007199254740992)"

definition double_1e308 :: number where
  "double_1e308 = Finite (5010420900022432 * 2 ^ 971)"

definition gold_record :: "string \<Rightarrow> number \<Rightarrow> RawAssetData" where
  "gold_record source' price' =
     \<lparr>source = source', externalId = ''XAU'', name = ''Gold'', symbol = None, price = price',
      currency = ''USD'', volume = None, marketCap = None, metadata = None\<rparr>"

section \<open>The Levenshtein distance\<close>

subsection \<open>The recursive definition is the least number of edits\<close>

lemma edit_distance_Nil2 [simp]: "edit_distance xs [] = length xs"
  by (cases xs) simp_all

lemma edit_distance_sym: "edit_distance xs ys = edit_distance ys xs"
  by (induction xs ys rule: edit_distance.induct) (simp_all add: min.commute eq_commute)

lemma edit_distance_insert_le: "edit_distance xs (y # ys) \<le> edit_distance xs ys + 1"
  by (cases xs) simp_all

lemma edit_distance_delete_le: "edit_distance (x # xs) ys \<le> edit_distance xs ys + 1"
  by (cases ys) simp_all

lemma edit_distance_undelete_le: "edit_distance xs ys \<le> edit_distance (x # xs) ys + 1"
proof (induction ys arbitrary: x xs)
  case Nil
  show ?case by simp
next
  case (Cons y ys)
  have a: "edit_distance xs (y # ys) \<le> edit_distance xs ys + 1"
    by (rule edit_distance_insert_le)
  have b: "edit_distance xs ys \<le> edit_distance (x # xs) ys + 1"
    by (rule Cons.IH)
  show ?case using a b by simp
qed

lemma edit_distance_uninsert_le: "edit_distance xs ys \<le> edit_distance xs (y # ys) + 1"
  using edit_distance_undelete_le [of ys xs y] by (simp add: edit_distance_sym)

lemma edit_distance_same_head:
  "edit_distance (x # xs) (x # ys) = edit_distance xs ys"
  using edit_distance_undelete_le [of xs ys x] edit_distance_uninsert_le [of xs ys x]
        edit_distance_undelete_le [of xs "x # ys" x]
  by simp

lemma edits_edit_distance: "edits xs ys (edit_distance xs ys)"
proof (induction xs ys rule: edit_distance.induct)
  case (1 ys)
  show ?case by (induction ys) (auto intro: edits.intros)
next
  case (2 x xs)
  have "edits zs [] (length zs)" for zs :: "'a list"
    by (induction zs) (auto intro: edits.intros)
  then show ?case by (metis edit_distance_Nil2)
next
  case (3 x xs y ys)
  then show ?case
    by (auto simp: min_def intro: edits.intros)
qed

lemma edit_distance_le_edits: "edits xs ys n \<Longrightarrow> edit_distance xs ys \<le> n"
proof (induction rule: edits.induct)
  case finished
  show ?case by simp
next
  case (keep xs ys n x)
  then show ?case by (simp add: edit_distance_same_head)
next
  case (substitute xs ys n x y)
  then have "edit_distance xs ys + (if x = y then 0 else 1) \<le> Suc n" by simp
  then show ?case by (simp add: min.coboundedI1)
next
  case (delete xs ys n x)
  then show ?case using edit_distance_delete_le [of x xs ys] by simp
next
  case (insert xs ys n y)
  then show ?case using edit_distance_insert_le [of xs y ys] by simp
qed

lemma edit_distance_least: "edit_distance xs ys = (LEAST n. edits xs ys n)"
  by (rule Least_equality [symmetric]) (auto intro: edits_edit_distance edit_distance_le_edits)

lemma edits_snoc_keep: "edits xs ys n \<Longrightarrow> edits (xs @ [a]) (ys @ [a]) n"
  by (induction rule: edits.induct) (auto intro: edits.intros)

lemma edits_snoc_substitute: "edits xs ys n \<Longrightarrow> edits (xs @ [a]) (ys @ [b]) (Suc n)"
  by (induction rule: edits.induct) (auto intro: edits.intros)

lemma edits_snoc_delete: "edits xs ys n \<Longrightarrow> edits (xs @ [a]) ys (Suc n)"
  by (induction rule: edits.induct) (auto intro: edits.intros)

lemma edits_snoc_insert: "edits xs ys n \<Longrightarrow> edits xs (ys @ [b]) (Suc n)"
  by (induction rule: edits.induct) (auto intro: edits.intros)

lemma edits_rev: "edits xs ys n \<Longrightarrow> edits (rev xs) (rev ys) n"
  by (induction rule: edits.induct)
     (auto intro: edits.finished edits_snoc_keep edits_snoc_substitute edits_snoc_delete edits_snoc_insert)

lemma edit_distance_rev_le: "edit_distance (rev xs) (rev ys) \<le> edit_distance xs ys"
  by (intro edit_distance_le_edits edits_rev edits_edit_distance)

lemma edit_distance_rev: "edit_distance (rev xs) (rev ys) = edit_distance xs ys"
  using edit_distance_rev_le [of xs ys] edit_distance_rev_le [of "rev xs" "rev ys"] by simp

subsection \<open>The matrix of \<open>levenshteinDistance\<close> holds the distances of the prefixes\<close>

lemma js_set_append [simp]: "js_set xs (length xs) v = xs @ [v]"
  by (simp add: js_set_def)

lemma js_set_inside [simp]: "i < length xs \<Longrightarrow> js_set xs i v = xs[i := v]"
  by (simp add: js_set_def)

declare init_rows.simps [simp del] init_cols.simps [simp del]
  fill_row.simps [simp del] fill_rows.simps [simp del]

lemma init_rows_eq:
  "length matrix = i \<Longrightarrow> i \<le> Suc n2 \<Longrightarrow>
   init_rows n2 i matrix = matrix @ map (\<lambda>k. [k]) [i..<Suc n2]"
proof (induction n2 i matrix rule: init_rows.induct)
  case (1 n2 i matrix)
  show ?case
  proof (cases "i \<le> n2")
    case True
    have step: "js_set matrix i [i] = matrix @ [[i]]"
      using "1.prems" by (simp add: js_set_def)
    have "init_rows n2 i matrix = init_rows n2 (i + 1) (js_set matrix i [i])"
      using True by (subst init_rows.simps) simp
    also have "\<dots> = js_set matrix i [i] @ map (\<lambda>k. [k]) [i + 1..<Suc n2]"
      using True "1.prems" step by (intro "1.IH") auto
    also have "\<dots> = (matrix @ [[i]]) @ map (\<lambda>k. [k]) [i + 1..<Suc n2]"
      by (simp add: step)
    also have "\<dots> = matrix @ map (\<lambda>k. [k]) [i..<Suc n2]"
      using True by (simp add: upt_conv_Cons)
    finally show ?thesis .
  next
    case False
    then have "i = Suc n2" using "1.prems" by simp
    then show ?thesis by (subst init_rows.simps) simp
  qed
qed

lemma init_cols_eq:
  "matrix \<noteq> [] \<Longrightarrow> matrix ! 0 = [0..<j] \<Longrightarrow> 0 < j \<Longrightarrow> j \<le> Suc n1 \<Longrightarrow>
   init_cols n1 j matrix = matrix[0 := [0..<Suc n1]]"
proof (induction n1 j matrix rule: init_cols.induct)
  case (1 n1 j matrix)
  show ?case
  proof (cases "j \<le> n1")
    case True
    let ?m = "matrix[0 := js_set (matrix ! 0) j j]"
    have row: "js_set (matrix ! 0) j j = [0..<Suc j]"
      using "1.prems" by (simp add: js_set_def)
    have "init_cols n1 j matrix = init_cols n1 (j + 1) ?m"
      using True by (subst init_cols.simps) simp
    also have "\<dots> = ?m[0 := [0..<Suc n1]]"
      using True "1.prems" row by (intro "1.IH") auto
    also have "\<dots> = matrix[0 := [0..<Suc n1]]"
      by simp
    finally show ?thesis .
  next
    case False
    then have "j = Suc n1" using "1.prems" by simp
    moreover have "matrix[0 := matrix ! 0] = matrix"
      by (rule list_update_id)
    ultimately show ?thesis using "1.prems"
      by (subst init_cols.simps) simp
  qed
qed

lemma init_matrix:
  "init_cols n1 0 (init_rows n2 0 []) = [0..<Suc n1] # map (\<lambda>k. [k]) [1..<Suc n2]"
proof -
  have rows: "init_rows n2 0 [] = [0] # map (\<lambda>k. [k]) [1..<Suc n2]"
    by (simp add: init_rows_eq upt_conv_Cons del: upt_Suc)
  let ?m = "[0] # map (\<lambda>k. [k]) [1..<Suc n2]"
  have "init_cols n1 0 ?m = init_cols n1 1 ?m"
    by (subst init_cols.simps) simp
  also have "\<dots> = ?m[0 := [0..<Suc n1]]"
    by (rule init_cols_eq) simp_all
  finally show ?thesis by (simp add: rows)
qed

lemma table_0 [simp]: "table str1 str2 0 j = min j (length str1)" "table str1 str2 i 0 = min i (length str2)"
  by (simp_all add: table_def min.commute)

lemma table_Suc:
  "i < length str2 \<Longrightarrow> j < length str1 \<Longrightarrow>
   table str1 str2 (Suc i) (Suc j) =
     (if str2 ! i = str1 ! j then table str1 str2 i j
      else min (table str1 str2 i j + 1)
             (min (table str1 str2 (Suc i) j + 1) (table str1 str2 i (Suc j) + 1)))"
proof (cases "str2 ! i = str1 ! j")
  case True
  assume "i < length str2" "j < length str1"
  then show ?thesis
    using True edit_distance_same_head [of "str1 ! j" "rev (take i str2)" "rev (take j str1)"]
    by (simp add: table_def take_Suc_conv_app_nth del: edit_distance.simps)
next
  case False
  assume "i < length str2" "j < length str1"
  then show ?thesis
    using False by (simp add: table_def take_Suc_conv_app_nth min.commute)
qed

lemma cell_table:
  assumes inv: "fill_inv str1 str2 i j matrix"
    and i: "0 < i" "i \<le> length str2" and j: "0 < j" "j \<le> length str1"
  shows "cell str1 str2 matrix i j = table str1 str2 i j"
proof -
  obtain i' j' where ij: "i = Suc i'" "j = Suc j'"
    using i j by (metis Suc_pred)
  have prev: "row_done str1 str2 matrix i'"
    using inv ij by (simp add: fill_inv_def)
  have a: "matrix ! i' ! j' = table str1 str2 i' j'"
    using prev j ij by (simp add: row_done_def)
  have b: "matrix ! i' ! j = table str1 str2 i' j"
    using prev j by (simp add: row_done_def)
  have c: "matrix ! i ! j' = table str1 str2 i j'"
    using inv ij by (simp add: fill_inv_def)
  show ?thesis
    using a b c i j ij by (simp add: cell_def table_Suc)
qed

lemma fill_row_inv:
  "fill_inv str1 str2 i j matrix \<Longrightarrow> 0 < i \<Longrightarrow> i \<le> length str2 \<Longrightarrow> 0 < j \<Longrightarrow>
   j \<le> Suc (length str1) \<Longrightarrow>
   fill_inv str1 str2 i (Suc (length str1)) (fill_row str1 str2 i j matrix)"
proof (induction str1 str2 i j matrix rule: fill_row.induct)
  case (1 str1 str2 i j matrix)
  show ?case
  proof (cases "j \<le> length str1")
    case True
    let ?v = "cell str1 str2 matrix i j"
    let ?m = "matrix[i := js_set (matrix ! i) j ?v]"
    have v: "?v = table str1 str2 i j"
      using "1.prems" True by (intro cell_table) auto
    have len: "length (matrix ! i) = j" "length matrix = Suc (length str2)"
      using "1.prems" by (simp_all add: fill_inv_def)
    have row: "js_set (matrix ! i) j ?v = matrix ! i @ [table str1 str2 i j]"
      using len v by (simp add: js_set_def)
    have i_lt: "i < length matrix"
      using "1.prems"(3) len by simp
    have old: "\<forall>r < i. row_done str1 str2 matrix r"
      "\<forall>c < j. matrix ! i ! c = table str1 str2 i c"
      "\<forall>r. i < r \<and> r \<le> length str2 \<longrightarrow> matrix ! r = [r]"
      using "1.prems"(1) by (simp_all add: fill_inv_def)
    have new_i: "?m ! i = matrix ! i @ [table str1 str2 i j]"
      using i_lt row by simp
    have other: "?m ! r = matrix ! r" if "r \<noteq> i" for r
      using that by simp
    have "?m ! i ! c = table str1 str2 i c" if "c < j + 1" for c
    proof (cases "c < j")
      case True
      then show ?thesis using old(2) len(1) unfolding new_i by (simp add: nth_append)
    next
      case False
      then have "c = j" using that by simp
      then show ?thesis using len(1) unfolding new_i by (simp add: nth_append)
    qed
    then have "\<forall>c < j + 1. ?m ! i ! c = table str1 str2 i c"
      by blast
    moreover have "\<forall>r < i. row_done str1 str2 ?m r"
      using old(1) other by (simp add: row_done_def)
    moreover have "\<forall>r. i < r \<and> r \<le> length str2 \<longrightarrow> ?m ! r = [r]"
      using old(3) other by simp
    moreover have "length (?m ! i) = j + 1" "length ?m = Suc (length str2)"
      using len unfolding new_i by simp_all
    ultimately have "fill_inv str1 str2 i (j + 1) ?m"
      unfolding fill_inv_def by blast
    then have "fill_inv str1 str2 i (Suc (length str1)) (fill_row str1 str2 i (j + 1) ?m)"
      using True "1.prems" by (intro "1.IH") auto
    then show ?thesis
      using True by (subst fill_row.simps) simp
  next
    case False
    then have "j = Suc (length str1)" using "1.prems" by simp
    then show ?thesis using "1.prems"(1)
      by (subst fill_row.simps) simp
  qed
qed

lemma fill_rows_inv:
  "rows_inv str1 str2 i matrix \<Longrightarrow> 0 < i \<Longrightarrow> i \<le> Suc (length str2) \<Longrightarrow>
   rows_inv str1 str2 (Suc (length str2)) (fill_rows str1 str2 i matrix)"
proof (induction str1 str2 i matrix rule: fill_rows.induct)
  case (1 str1 str2 i matrix)
  show ?case
  proof (cases "i \<le> length str2")
    case True
    have "fill_inv str1 str2 i 1 matrix"
      using "1.prems" True by (auto simp: rows_inv_def fill_inv_def)
    then have filled: "fill_inv str1 str2 i (Suc (length str1)) (fill_row str1 str2 i 1 matrix)"
      using "1.prems" True by (intro fill_row_inv) auto
    let ?m = "fill_row str1 str2 i 1 matrix"
    have "row_done str1 str2 ?m i"
      using filled by (simp add: fill_inv_def row_done_def less_Suc_eq_le)
    moreover have "\<forall>r < i. row_done str1 str2 ?m r"
      using filled by (simp add: fill_inv_def)
    ultimately have "\<forall>r < i + 1. row_done str1 str2 ?m r"
      by (auto simp: less_Suc_eq)
    moreover have "length ?m = Suc (length str2)"
      "\<forall>r. i + 1 \<le> r \<and> r \<le> length str2 \<longrightarrow> ?m ! r = [r]"
      using filled by (simp_all add: fill_inv_def)
    ultimately have "rows_inv str1 str2 (i + 1) (fill_row str1 str2 i 1 matrix)"
      unfolding rows_inv_def by blast
    then have "rows_inv str1 str2 (Suc (length str2))
        (fill_rows str1 str2 (i + 1) (fill_row str1 str2 i 1 matrix))"
      using True "1.prems" by (intro "1.IH") auto
    then show ?thesis
      using True by (subst fill_rows.simps) simp
  next
    case False
    then have "i = Suc (length str2)" using "1.prems" by simp
    then show ?thesis using "1.prems"(1)
      by (subst fill_rows.simps) simp
  qed
qed

lemma init_rows_inv:
  "rows_inv str1 str2 1 (init_cols (length str1) 0 (init_rows (length str2) 0 []))"
  unfolding init_matrix rows_inv_def row_done_def
  by (auto simp: nth_Cons' simp del: upt_Suc)

lemma levenshteinDistance_edit_distance:
  "levenshteinDistance str1 str2 = edit_distance str1 str2"
proof -
  let ?m = "fill_rows str1 str2 1 (init_cols (length str1) 0 (init_rows (length str2) 0 []))"
  have "rows_inv str1 str2 (Suc (length str2)) ?m"
    by (intro fill_rows_inv init_rows_inv) auto
  then have "?m ! length str2 ! length str1 = table str1 str2 (length str2) (length str1)"
    by (simp add: rows_inv_def row_done_def)
  also have "\<dots> = edit_distance str1 str2"
    by (simp add: table_def edit_distance_rev) (rule edit_distance_sym)
  finally show ?thesis
    by (simp add: levenshteinDistance_def)
qed

section \<open>Rounding to a double\<close>

lemma round_half_even_of_int [simp]: "round_half_even (of_int n) = n"
  by (simp add: round_half_even_def)

lemma round_half_even_numeral [simp]:
  "round_half_even (numeral n) = numeral n" "round_half_even 0 = 0" "round_half_even 1 = 1"
  using round_half_even_of_int [of "numeral n"] round_half_even_of_int [of 0]
    round_half_even_of_int [of 1]
  by simp_all

lemma floor_rat_numeral_div [simp]:
  "\<lfloor>(numeral a :: rat) / numeral b\<rfloor> = numeral a div numeral b"
  by (metis floor_divide_of_int_eq of_int_numeral)

lemma round_half_even_mono:
  assumes "x \<le> y"
  shows "round_half_even x \<le> round_half_even y"
proof (cases "\<lfloor>x\<rfloor> = \<lfloor>y\<rfloor>")
  case True
  then show ?thesis using assms
    unfolding round_half_even_def Let_def by auto
next
  case False
  then have "\<lfloor>x\<rfloor> + 1 \<le> \<lfloor>y\<rfloor>"
    using floor_mono [OF assms] by simp
  moreover have "round_half_even x \<le> \<lfloor>x\<rfloor> + 1"
    unfolding round_half_even_def Let_def by auto
  moreover have "\<lfloor>y\<rfloor> \<le> round_half_even y"
    unfolding round_half_even_def Let_def by auto
  ultimately show ?thesis by linarith
qed

lemma ulp_shift_le: "ulp_shift fuel x \<le> fuel"
  by (induction fuel arbitrary: x) auto

lemma ulp_shift_reached:
  "ulp_shift fuel x < fuel \<Longrightarrow> 2 ^ 52 \<le> x * 2 ^ ulp_shift fuel x"
proof (induction fuel arbitrary: x)
  case 0
  then show ?case by simp
next
  case (Suc fuel)
  show ?case
  proof (cases "2 ^ 52 \<le> x")
    case True
    then show ?thesis by simp
  next
    case False
    then have "ulp_shift fuel (2 * x) < fuel" using Suc.prems by simp
    then have "2 ^ 52 \<le> 2 * x * 2 ^ ulp_shift fuel (2 * x)" by (rule Suc.IH)
    then show ?thesis using False by (simp add: mult.assoc mult.left_commute)
  qed
qed

lemma ulp_shift_below:
  "0 < ulp_shift fuel x \<Longrightarrow> x * 2 ^ ulp_shift fuel x < 2 ^ 53"
proof (induction fuel arbitrary: x)
  case 0
  then show ?case by simp
next
  case (Suc fuel)
  then have small: "\<not> 2 ^ 52 \<le> x" by (auto split: if_splits)
  show ?case
  proof (cases "0 < ulp_shift fuel (2 * x)")
    case True
    then have "2 * x * 2 ^ ulp_shift fuel (2 * x) < 2 ^ 53" by (rule Suc.IH)
    then show ?thesis using small by (simp add: mult.assoc mult.left_commute)
  next
    case False
    then show ?thesis using small by simp
  qed
qed

lemma ulp_shift_antimono:
  "x \<le> y \<Longrightarrow> ulp_shift fuel y \<le> ulp_shift fuel x"
  by (induction fuel arbitrary: x y) auto

lemma ulp_shift_eq:
  "k \<le> fuel \<Longrightarrow> 2 ^ 52 \<le> x * 2 ^ k \<Longrightarrow> x * 2 ^ k < 2 ^ 53 \<Longrightarrow> ulp_shift fuel x = k"
proof (induction fuel arbitrary: x k)
  case 0
  then show ?case by simp
next
  case (Suc fuel)
  show ?case
  proof (cases k)
    case 0
    then show ?thesis using Suc.prems by simp
  next
    case (Suc k')
    then have "x * 2 ^ k' < 2 ^ 52" using Suc.prems by simp
    moreover have "x \<le> x * 2 ^ k'" if "2 ^ 52 \<le> x"
    proof -
      have "0 \<le> x" using that by (rule order_trans [rotated]) simp
      moreover have "(1::rat) \<le> 2 ^ k'" by simp
      ultimately have "x * 1 \<le> x * 2 ^ k'" by (rule mult_left_mono [rotated])
      then show ?thesis by simp
    qed
    ultimately have small: "\<not> 2 ^ 52 \<le> x" by fastforce
    have "ulp_shift fuel (2 * x) = k'"
      using Suc.prems Suc by (intro Suc.IH) (simp_all add: mult.assoc mult.left_commute)
    then show ?thesis using small Suc by simp
  qed
qed


lemma to_double_eval:
  assumes "0 \<le> x" "k \<le> 1074" "2 ^ 52 \<le> x * 2 ^ k" "x * 2 ^ k < 2 ^ 53"
  shows "to_double x = of_int (round_half_even (x * 2 ^ k)) / 2 ^ k"
proof -
  have "ulp_shift 1074 \<bar>x\<bar> = k"
    using assms by (intro ulp_shift_eq) simp_all
  moreover have "0 < x"
  proof (rule ccontr)
    assume "\<not> 0 < x"
    then have "x = 0" using assms(1) by simp
    then show False using assms(3) by simp
  qed
  ultimately show ?thesis using assms(1) by (simp add: to_double_def)
qed

lemma to_double_0 [simp]: "to_double 0 = 0"
  by (simp add: to_double_def)

lemma to_double_nonneg: "0 \<le> x \<Longrightarrow> 0 \<le> to_double x"
proof -
  assume x: "0 \<le> x"
  have "0 \<le> x * 2 ^ k" for k using x by simp
  then have "round_half_even 0 \<le> round_half_even (x * 2 ^ k)" for k
    by (rule round_half_even_mono)
  then have "0 \<le> round_half_even (x * 2 ^ k)" for k
    using round_half_even_of_int [of 0] by simp
  then show ?thesis using x
    by (cases "x = 0") (simp_all add: to_double_def Let_def)
qed

lemma to_double_mono:
  assumes "0 \<le> x" "x \<le> y"
  shows "to_double x \<le> to_double y"
proof -
  define kx where "kx = ulp_shift 1074 x"
  define ky where "ky = ulp_shift 1074 y"
  define mx where "mx = round_half_even (x * 2 ^ kx)"
  define my where "my = round_half_even (y * 2 ^ ky)"
  have y: "0 \<le> y" using assms by simp
  have fx: "to_double x = of_int mx / 2 ^ kx"
    using assms(1) by (cases "x = 0") (simp_all add: to_double_def kx_def mx_def Let_def)
  have fy: "to_double y = of_int my / 2 ^ ky"
    using y by (cases "y = 0") (simp_all add: to_double_def ky_def my_def Let_def)
  have k: "ky \<le> kx"
    unfolding kx_def ky_def using assms(2) by (rule ulp_shift_antimono)
  show ?thesis
  proof (cases "ky = kx")
    case True
    have "x * 2 ^ kx \<le> y * 2 ^ kx" using assms(2) by simp
    then have "mx \<le> my" unfolding mx_def my_def True by (rule round_half_even_mono)
    then show ?thesis unfolding fx fy True by (simp add: divide_right_mono)
  next
    case False
    then have lt: "ky < kx" using k by simp
    have "kx \<le> 1074" unfolding kx_def by (rule ulp_shift_le)
    then have "ulp_shift 1074 y < 1074" using lt unfolding ky_def by simp
    then have "2 ^ 52 \<le> y * 2 ^ ky" unfolding ky_def by (rule ulp_shift_reached)
    then have "round_half_even (of_int (2 ^ 52)) \<le> my"
      unfolding my_def by (intro round_half_even_mono) simp
    then have my: "2 ^ 52 \<le> my" by (simp only: round_half_even_of_int)
    have "0 < ulp_shift 1074 x" using lt unfolding kx_def by simp
    then have "x * 2 ^ kx < 2 ^ 53" unfolding kx_def by (rule ulp_shift_below)
    then have "mx \<le> round_half_even (of_int (2 ^ 53))"
      unfolding mx_def by (intro round_half_even_mono) simp
    then have mx: "mx \<le> 2 ^ 53" by (simp only: round_half_even_of_int)
    obtain d where d: "kx = Suc (ky + d)" using lt less_iff_Suc_add by auto
    have "of_int mx / 2 ^ kx \<le> (2 ^ 53 :: rat) / 2 ^ kx"
      using mx by (intro divide_right_mono) (simp_all add: of_int_le_iff [of mx "2 ^ 53", where ?'a = rat, simplified])
    also have "\<dots> = 2 ^ 52 / 2 ^ (ky + d)" by (simp add: d)
    also have "\<dots> \<le> 2 ^ 52 / 2 ^ ky"
      by (intro divide_left_mono) (simp_all add: power_add)
    also have "\<dots> \<le> of_int my / 2 ^ ky"
      using my by (intro divide_right_mono) (simp_all add: of_int_le_iff [of "2 ^ 52" my, where ?'a = rat, simplified])
    finally show ?thesis unfolding fx fy .
  qed
qed

lemma to_double_1: "to_double 1 = 1"
  by (subst to_double_eval [where k = 52]) simp_all

lemma to_double_100: "to_double 100 = 100"
  by (subst to_double_eval [where k = 46]) simp_all

section \<open>calculateSimilarity\<close>

lemma is_az09_not_space: "is_az09 c \<Longrightarrow> \<not> is_space c"
  by (auto simp: is_az09_def is_space_def Let_def)

lemma dropWhile_none: "\<forall>x \<in> set xs. \<not> P x \<Longrightarrow> dropWhile P xs = xs"
  by (cases xs) simp_all

lemma trim_no_space: "\<forall>c \<in> set s. \<not> is_space c \<Longrightarrow> trim s = s"
  by (simp add: trim_def dropWhile_none)

lemma normalizeText_spec: "normalizeText text = normalize_spec text"
  unfolding normalizeText_def normalize_spec_def
  by (rule trim_no_space) (simp add: is_az09_not_space)

lemma edit_distance_le_max: "edit_distance xs ys \<le> max (length xs) (length ys)"
proof (induction xs ys rule: edit_distance.induct)
  case (3 x xs y ys)
  have "edit_distance (x # xs) (y # ys) \<le> edit_distance xs ys + 1"
    by (simp add: min.coboundedI1)
  also have "\<dots> \<le> max (length xs) (length ys) + 1"
    using "3.IH"(1) by simp
  finally show ?case by simp
qed simp_all

lemma edit_distance_0_iff: "edit_distance xs ys = 0 \<longleftrightarrow> xs = ys"
  by (induction xs ys rule: edit_distance.induct) (auto simp: min_def)

lemma Math_round_range: "0 \<le> x \<Longrightarrow> x \<le> 100 \<Longrightarrow> 0 \<le> Math_round x \<and> Math_round x \<le> 100"
  unfolding Math_round_def by (simp add: le_floor_iff floor_le_iff)

lemma score_range:
  assumes "distance \<le> maxLength" "0 < maxLength"
  shows "0 \<le> score maxLength distance \<and> score maxLength distance \<le> 100"
proof -
  define q :: rat where "q = (of_nat maxLength - of_nat distance) / of_nat maxLength"
  have q: "0 \<le> q" "q \<le> 1"
    using assms by (simp_all add: q_def)
  have d: "0 \<le> to_double q" "to_double q \<le> 1"
    using q to_double_nonneg [of q] to_double_mono [of q 1] by (simp_all add: to_double_1)
  then have p: "0 \<le> to_double q * 100" "to_double q * 100 \<le> 100" by simp_all
  then have "0 \<le> to_double (to_double q * 100)" "to_double (to_double q * 100) \<le> 100"
    using to_double_nonneg [of "to_double q * 100"] to_double_mono [of "to_double q * 100" 100]
    by (simp_all add: to_double_100)
  then show ?thesis
    unfolding score_def js_mul_def js_div_def q_def [symmetric] by (rule Math_round_range)
qed

lemma calculateSimilarity_eq:
  "calculateSimilarity name1 name2 =
     (if normalize_spec name1 = normalize_spec name2 then 100
      else score (max (length (normalize_spec name1)) (length (normalize_spec name2)))
             (edit_distance (normalize_spec name1) (normalize_spec name2)))"
proof (cases "normalize_spec name1 = normalize_spec name2")
  case True
  then show ?thesis by (simp add: calculateSimilarity_def normalizeText_spec)
next
  case False
  then have "normalize_spec name1 \<noteq> [] \<or> normalize_spec name2 \<noteq> []" by auto
  then have nz: "max (length (normalize_spec name1)) (length (normalize_spec name2)) \<noteq> 0"
    by (auto simp: max_def)
  show ?thesis
    unfolding calculateSimilarity_def normalizeText_spec Let_def score_def
      levenshteinDistance_edit_distance if_not_P [OF False] if_not_P [OF nz] ..
qed

lemma calculateSimilarity_range:
  "0 \<le> calculateSimilarity name1 name2 \<and> calculateSimilarity name1 name2 \<le> 100"
proof (cases "normalize_spec name1 = normalize_spec name2")
  case True
  then show ?thesis by (simp add: calculateSimilarity_eq)
next
  case False
  then have "normalize_spec name1 \<noteq> [] \<or> normalize_spec name2 \<noteq> []" by auto
  then have "0 < max (length (normalize_spec name1)) (length (normalize_spec name2))"
    by (auto simp: less_max_iff_disj)
  then show ?thesis using False
    by (simp add: calculateSimilarity_eq score_range edit_distance_le_max)
qed

section \<open>findMatches\<close>

declare scan_candidates.simps [simp del] seed_groups.simps [simp del]

lemma map_set_fresh: "k \<notin> fst ` set m \<Longrightarrow> map_set m k v = m @ [(k, v)]"
  by (induction m) auto

lemma set_map_set: "set (map_set m k v) \<subseteq> insert (k, v) (set m)"
proof (induction m)
  case Nil
  show ?case by simp
next
  case (Cons e m)
  obtain k' v' where e: "e = (k', v')" by (cases e)
  show ?case using Cons unfolding e by (cases "k' = k") auto
qed

lemma keys_map_set: "fst ` set (map_set m k v) = insert k (fst ` set m)"
proof (induction m)
  case Nil
  show ?case by simp
next
  case (Cons e m)
  obtain k' v' where e: "e = (k', v')" by (cases e)
  show ?case using Cons unfolding e by (cases "k' = k") auto
qed

lemma same_name_sim: 
  "RawAssetData.name (products ! i) = RawAssetData.name (products ! k) \<Longrightarrow> sim products i k = 100"
  by (simp add: sim_def calculateSimilarity_eq)

subsection \<open>The two loops compute the greedy clustering\<close>

lemma scan_candidates_filter:
  "scan_candidates products threshold i j grp processed =
     (grp @ map (\<lambda>k. products ! k)
        (filter (\<lambda>k. k \<notin> processed \<and> joins products threshold i k) [j..<length products]),
      processed \<union>
        set (filter (\<lambda>k. k \<notin> processed \<and> joins products threshold i k) [j..<length products]))"
proof (induction products threshold i j grp processed rule: scan_candidates.induct)
  case (1 products threshold i j grp processed)
  let ?P = "\<lambda>pr k. k \<notin> pr \<and> joins products threshold i k"
  show ?case
  proof (cases "j < length products")
    case False
    then show ?thesis by (subst scan_candidates.simps) simp
  next
    case inside: True
    then have upt: "[j..<length products] = j # [j + 1..<length products]"
      by (simp add: upt_conv_Cons)
    show ?thesis
    proof (cases "j \<in> processed")
      case True
      have "scan_candidates products threshold i j grp processed =
          scan_candidates products threshold i (j + 1) grp processed"
        using inside True by (subst scan_candidates.simps) simp
      then show ?thesis
        using "1.IH"(1) [OF inside True] True by (simp add: upt)
    next
      case fresh: False
      show ?thesis
      proof (cases "joins products threshold i j")
        case True
        then have t: "threshold \<le> of_int (calculateSimilarity (RawAssetData.name (products ! i))
            (RawAssetData.name (products ! j)))"
          by (simp add: joins_def sim_def)
        have "scan_candidates products threshold i j grp processed =
            scan_candidates products threshold i (j + 1) (grp @ [products ! j]) (insert j processed)"
          using inside fresh t by (subst scan_candidates.simps) simp
        moreover have "filter (?P (insert j processed)) [j + 1..<length products] =
            filter (?P processed) [j + 1..<length products]"
          by (rule filter_cong) auto
        ultimately show ?thesis
          using "1.IH"(2) [OF inside fresh refl t] fresh True by (simp add: upt)
      next
        case False
        then have t: "\<not> threshold \<le> of_int (calculateSimilarity (RawAssetData.name (products ! i))
            (RawAssetData.name (products ! j)))"
          by (simp add: joins_def sim_def)
        have "scan_candidates products threshold i j grp processed =
            scan_candidates products threshold i (j + 1) grp processed"
          using inside fresh t by (subst scan_candidates.simps) simp
        then show ?thesis
          using "1.IH"(3) [OF inside fresh refl t] fresh False by (simp add: upt)
      qed
    qed
  qed
qed

lemma seed_groups_cluster:
  "seed_groups products threshold i matches processed =
     fold (\<lambda>members m. map_set m (fst (group_of products members)) (snd (group_of products members)))
       (cluster (joins products threshold)
          (filter (\<lambda>k. k \<notin> processed) [i..<length products]))
       matches"
proof (induction products threshold i matches processed rule: seed_groups.induct)
  case (1 products threshold i matches processed)
  let ?step = "\<lambda>members m. map_set m (fst (group_of products members)) (snd (group_of products members))"
  show ?case
  proof (cases "i < length products")
    case False
    then show ?thesis by (subst seed_groups.simps) simp
  next
    case inside: True
    then have upt: "[i..<length products] = i # [i + 1..<length products]"
      by (simp add: upt_conv_Cons)
    show ?thesis
    proof (cases "i \<in> processed")
      case True
      have "seed_groups products threshold i matches processed =
          seed_groups products threshold (i + 1) matches processed"
        using inside True by (subst seed_groups.simps) simp
      then show ?thesis
        using "1.IH"(1) [OF inside True] True by (simp add: upt)
    next
      case fresh: False
      let ?rest = "filter (\<lambda>k. k \<notin> processed) [i + 1..<length products]"
      let ?members = "i # filter (joins products threshold i) ?rest"
      let ?grp = "map (\<lambda>k. products ! k) ?members"
      let ?processed = "insert i processed \<union> set (filter (joins products threshold i) ?rest)"
      have f: "filter (\<lambda>k. k \<notin> insert i processed \<and> joins products threshold i k)
            [i + 1..<length products] = filter (joins products threshold i) ?rest"
        by (simp add: conj_commute) (rule filter_cong, auto)
      have scan: "scan_candidates products threshold i (i + 1) [products ! i] (insert i processed)
          = (?grp, ?processed)"
        unfolding scan_candidates_filter f by simp
      have step: "seed_groups products threshold i matches processed =
          seed_groups products threshold (i + 1)
            (map_set matches (RawAssetData.name (products ! i)) ?grp) ?processed"
        using inside fresh scan by (subst seed_groups.simps) (simp add: Let_def)
      have rest: "filter (\<lambda>k. k \<notin> ?processed) [i + 1..<length products] =
          filter (\<lambda>j. \<not> joins products threshold i j) ?rest"
        by (simp add: conj_commute) (rule filter_cong, auto)
      have "seed_groups products threshold (i + 1)
            (map_set matches (RawAssetData.name (products ! i)) ?grp) ?processed =
          fold ?step (cluster (joins products threshold)
              (filter (\<lambda>j. \<not> joins products threshold i j) ?rest))
            (map_set matches (RawAssetData.name (products ! i)) ?grp)"
        using "1.IH"(2) [OF inside fresh scan [symmetric] refl] unfolding rest .
      then show ?thesis
        unfolding step using fresh by (simp add: upt group_of_def)
    qed
  qed
qed

lemma findMatches_cluster_fold:
  "findMatches products threshold =
     fold (\<lambda>members m. map_set m (fst (group_of products members)) (snd (group_of products members)))
       (cluster (joins products threshold) [0..<length products]) []"
  by (simp add: findMatches_def seed_groups_cluster)

lemma cluster_nonempty: "members \<in> set (cluster joining unassigned) \<Longrightarrow> members \<noteq> []"
  by (induction joining unassigned rule: cluster.induct) auto

lemma cluster_members:
  "sorted_wrt (<) unassigned \<Longrightarrow> members \<in> set (cluster joining unassigned) \<Longrightarrow>
   members \<noteq> [] \<and> set members \<subseteq> set unassigned \<and>
   (\<forall>j \<in> set (tl members). hd members < j \<and> joining (hd members) j)"
proof (induction joining unassigned rule: cluster.induct)
  case (1 joining)
  then show ?case by simp
next
  case (2 joining i unassigned)
  show ?case
  proof (cases "members = i # filter (joining i) unassigned")
    case True
    then show ?thesis using "2.prems"(1) by auto
  next
    case False
    then have "members \<in> set (cluster joining (filter (\<lambda>j. \<not> joining i j) unassigned))"
      using "2.prems"(2) by simp
    moreover have "sorted_wrt (<) (filter (\<lambda>j. \<not> joining i j) unassigned)"
      using "2.prems"(1) by (simp add: sorted_wrt_filter)
    ultimately have "members \<noteq> [] \<and>
        set members \<subseteq> set (filter (\<lambda>j. \<not> joining i j) unassigned) \<and>
        (\<forall>j \<in> set (tl members). hd members < j \<and> joining (hd members) j)"
      by (intro "2.IH")
    then show ?thesis by auto
  qed
qed

lemma mset_concat_cluster: "mset (concat (cluster joining unassigned)) = mset unassigned"
proof (induction joining unassigned rule: cluster.induct)
  case (1 joining)
  show ?case by simp
next
  case (2 joining i unassigned)
  have "mset (filter (joining i) unassigned) + mset (filter (\<lambda>j. \<not> joining i j) unassigned) =
      mset unassigned"
    by (induction unassigned) simp_all
  then show ?case using "2.IH" by simp
qed

lemma cluster_later_apart:
  "members \<in> set (cluster joining (filter (\<lambda>j. \<not> joining i j) unassigned)) \<Longrightarrow>
   j \<in> set members \<Longrightarrow> \<not> joining i j"
proof -
  assume m: "members \<in> set (cluster joining (filter (\<lambda>j. \<not> joining i j) unassigned))"
    and j: "j \<in> set members"
  have "set (concat (cluster joining (filter (\<lambda>j. \<not> joining i j) unassigned))) =
      set (filter (\<lambda>j. \<not> joining i j) unassigned)"
    using mset_concat_cluster [of joining "filter (\<lambda>j. \<not> joining i j) unassigned"]
    by (metis set_mset_mset)
  then have "j \<in> set (filter (\<lambda>j. \<not> joining i j) unassigned)"
    using m j by auto
  then show ?thesis by simp
qed

lemma cluster_head_least:
  "sorted_wrt (<) unassigned \<Longrightarrow> k < length (cluster joining unassigned) \<Longrightarrow>
   j \<in> set (concat (drop k (cluster joining unassigned))) \<Longrightarrow>
   hd (cluster joining unassigned ! k) \<le> j"
proof (induction joining unassigned arbitrary: k rule: cluster.induct)
  case (1 joining)
  then show ?case by simp
next
  case (2 joining i unassigned)
  let ?rest = "filter (\<lambda>j. \<not> joining i j) unassigned"
  show ?case
  proof (cases k)
    case 0
    have "set (concat (cluster joining (i # unassigned))) = set (i # unassigned)"
      using mset_concat_cluster [of joining "i # unassigned"] by (metis set_mset_mset)
    then have "j \<in> set (i # unassigned)" using "2.prems"(3) 0 by simp
    then show ?thesis using "2.prems"(1) 0 by auto
  next
    case (Suc k')
    have "sorted_wrt (<) ?rest" using "2.prems"(1) by (simp add: sorted_wrt_filter)
    moreover have "k' < length (cluster joining ?rest)" using "2.prems"(2) Suc by simp
    moreover have "j \<in> set (concat (drop k' (cluster joining ?rest)))"
      using "2.prems"(3) Suc by simp
    ultimately have "hd (cluster joining ?rest ! k') \<le> j" by (rule "2.IH")
    then show ?thesis using Suc by simp
  qed
qed

lemma cluster_distinct_keys:
  "(\<And>i j. key i = key j \<Longrightarrow> joining i j) \<Longrightarrow>
   distinct (map (\<lambda>members. key (hd members)) (cluster joining unassigned))"
proof (induction joining unassigned rule: cluster.induct)
  case (1 joining)
  show ?case by simp
next
  case (2 joining i unassigned)
  have "key (hd members) \<noteq> key i"
    if "members \<in> set (cluster joining (filter (\<lambda>j. \<not> joining i j) unassigned))" for members
  proof -
    have "members \<noteq> []" using that by (rule cluster_nonempty)
    then have "hd members \<in> set members" by simp
    then have "\<not> joining i (hd members)" using that cluster_later_apart by blast
    then show ?thesis using "2.prems" [of i "hd members"] by auto
  qed
  note apart = this
  have "key i \<notin> (\<lambda>members. key (hd members)) `
      set (cluster joining (filter (\<lambda>j. \<not> joining i j) unassigned))"
  proof
    assume "key i \<in> (\<lambda>members. key (hd members)) `
      set (cluster joining (filter (\<lambda>j. \<not> joining i j) unassigned))"
    then obtain members
      where "members \<in> set (cluster joining (filter (\<lambda>j. \<not> joining i j) unassigned))"
        and "key i = key (hd members)"
      by (rule imageE)
    then show False using apart [of members] by simp
  qed
  moreover have "distinct (map (\<lambda>members. key (hd members))
      (cluster joining (filter (\<lambda>j. \<not> joining i j) unassigned)))"
    using "2.prems" by (rule "2.IH")
  ultimately show ?case by simp
qed

lemma fold_map_set_fresh:
  "distinct (map fst entries) \<Longrightarrow> fst ` set entries \<inter> fst ` set m = {} \<Longrightarrow>
   fold (\<lambda>e m. map_set m (fst e) (snd e)) entries m = m @ entries"
proof (induction entries arbitrary: m)
  case Nil
  show ?case by simp
next
  case (Cons e entries)
  have "map_set m (fst e) (snd e) = m @ [e]"
    using Cons.prems(2) by (simp add: map_set_fresh)
  moreover have "fst ` set entries \<inter> fst ` set (m @ [e]) = {}"
    using Cons.prems by auto
  ultimately show ?case using Cons.IH [of "m @ [e]"] Cons.prems(1) by simp
qed

lemma set_fold_map_set:
  "set (fold (\<lambda>e m. map_set m (fst e) (snd e)) entries m) \<subseteq> set m \<union> set entries"
proof (induction entries arbitrary: m)
  case Nil
  show ?case by simp
next
  case (Cons e entries)
  show ?case
    using Cons [of "map_set m (fst e) (snd e)"] set_map_set [of m "fst e" "snd e"] by auto
qed

lemma findMatches_fold_entries:
  "findMatches products threshold =
     fold (\<lambda>e m. map_set m (fst e) (snd e))
       (map (group_of products) (cluster (joins products threshold) [0..<length products])) []"
  by (simp add: findMatches_cluster_fold fold_map comp_def)

lemma joins_same_name:
  "threshold \<le> 100 \<Longrightarrow> RawAssetData.name (products ! i) = RawAssetData.name (products ! j) \<Longrightarrow>
   joins products threshold i j"
  by (simp add: joins_def same_name_sim)

lemma findMatches_cluster:
  assumes "threshold \<le> 100"
  shows "findMatches products threshold =
     map (group_of products) (cluster (joins products threshold) [0..<length products])"
proof -
  have "distinct (map (\<lambda>members. RawAssetData.name (products ! hd members))
      (cluster (joins products threshold) [0..<length products]))"
    using assms by (intro cluster_distinct_keys joins_same_name)
  then have "distinct (map fst (map (group_of products)
      (cluster (joins products threshold) [0..<length products])))"
    by (simp add: comp_def group_of_def)
  then show ?thesis
    unfolding findMatches_fold_entries by (subst fold_map_set_fresh) simp_all
qed

lemma cluster_anchored:
  assumes "members \<in> set (cluster (joins products threshold) [0..<length products])"
  shows "anchored products threshold (group_of products members)"
proof -
  have m: "members \<noteq> []" "set members \<subseteq> set [0..<length products]"
    "\<forall>j \<in> set (tl members). hd members < j \<and> joins products threshold (hd members) j"
    using cluster_members [OF _ assms] by simp_all
  then have "hd members \<in> set members" by simp
  then have "hd members < length products" using m(2) by auto
  moreover have "j < length products" if "j \<in> set (tl members)" for j
    using that m(1,2) by (cases members) auto
  moreover have "members = hd members # tl members" using m(1) by simp
  ultimately show ?thesis
    unfolding anchored_def group_of_def using m(3)
    by (intro exI [of _ "hd members"] exI [of _ "tl members"])
       (auto simp: joins_def simp flip: list.map(2))
qed

lemma findMatches_anchored:
  assumes "e \<in> set (findMatches products threshold)"
  shows "anchored products threshold e"
proof -
  have "e \<in> set (map (group_of products)
      (cluster (joins products threshold) [0..<length products]))"
    using assms set_fold_map_set unfolding findMatches_fold_entries by fastforce
  then show ?thesis using cluster_anchored by auto
qed

subsection \<open>The score at some lengths and distances\<close>

text \<open>
  The rounding to doubles shows at length 200 and distance 171: the exact value of
  \<open>29 / 200 * 100\<close> is 14.5, which rounds to 15, and the doubles give
  14.499999999999998, which rounds to 14.
\<close>

lemma score_200_171:
  "score 200 171 = 14 \<and> Math_round ((200 - 171) / 200 * 100) = 15"
proof -
  have a: "to_double (29 / 200) = 5224175567749775 / 36028797018963968"
    by (subst to_double_eval [where k = 55]) (simp_all add: round_half_even_def Let_def)
  have b: "to_double (5224175567749775 / 36028797018963968 * 100) = 8162774324609023 / 562949953421312"
    by (subst to_double_eval [where k = 49]) (simp_all add: round_half_even_def Let_def)
  have "score 200 171 = Math_round (to_double (to_double (29 / 200) * 100))"
    by (simp add: score_def js_mul_def js_div_def)
  also have "\<dots> = 14"
    unfolding a b by (simp add: Math_round_def)
  finally show ?thesis by (simp add: Math_round_def)
qed


lemma score_11_4: "score 11 4 = 64"
proof -
  have a: "to_double (7 / 11) = 5731854071198813 / 9007199254740992"
    by (subst to_double_eval [where k = 53]) (simp_all add: round_half_even_def Let_def)
  have b: "to_double (5731854071198813 / 9007199254740992 * 100) = 8956021986248145 / 140737488355328"
    by (subst to_double_eval [where k = 47]) (simp_all add: round_half_even_def Let_def)
  have "score 11 4 = Math_round (to_double (to_double (7 / 11) * 100))"
    by (simp add: score_def js_mul_def js_div_def)
  also have "\<dots> = 64"
    unfolding a b by (simp add: Math_round_def)
  finally show ?thesis .
qed

lemma score_400_1: "score 400 1 = 100"
proof -
  have a: "to_double (399 / 400) = 2246170314151035 / 2251799813685248"
    by (subst to_double_eval [where k = 53]) (simp_all add: round_half_even_def Let_def)
  have b: "to_double (2246170314151035 / 2251799813685248 * 100) = 399 / 4"
    by (subst to_double_eval [where k = 46]) (simp_all add: round_half_even_def Let_def)
  have "score 400 1 = Math_round (to_double (to_double (399 / 400) * 100))"
    by (simp add: score_def js_mul_def js_div_def)
  also have "\<dots> = 100"
    unfolding a b by (simp add: Math_round_def)
  finally show ?thesis .
qed

lemma score_below_200:
  assumes "0 < distance" "distance \<le> maxLength" "maxLength < 200"
  shows "score maxLength distance \<le> 99"
proof -
  define q :: rat where "q = (of_nat maxLength - of_nat distance) / of_nat maxLength"
  have m: "0 < maxLength" using assms by simp
  have q0: "0 \<le> q" using assms by (simp add: q_def)
  have "q = 1 - of_nat distance / of_nat maxLength"
    using m by (simp add: q_def diff_divide_distrib)
  moreover have "(1::rat) / 199 \<le> of_nat distance / of_nat maxLength"
  proof -
    have "(1::rat) / 199 \<le> 1 / of_nat maxLength"
      using m assms(3) by (intro divide_left_mono) simp_all
    also have "\<dots> \<le> of_nat distance / of_nat maxLength"
      using assms(1) m by (intro divide_right_mono) simp_all
    finally show ?thesis .
  qed
  ultimately have q1: "q \<le> 198 / 199" by simp
  have a: "to_double (198 / 199) = 8961936946928223 / 9007199254740992"
    by (subst to_double_eval [where k = 53]) (simp_all add: round_half_even_def Let_def)
  have b: "to_double (8961936946928223 / 9007199254740992 * 100) = 3500756619893837 / 35184372088832"
    by (subst to_double_eval [where k = 46]) (simp_all add: round_half_even_def Let_def)
  have "to_double q \<le> 8961936946928223 / 9007199254740992"
    using to_double_mono [OF q0 q1] by (simp only: a)
  moreover have "0 \<le> to_double q" using q0 by (rule to_double_nonneg)
  ultimately have "to_double (to_double q * 100) \<le> to_double (8961936946928223 / 9007199254740992 * 100)"
    by (intro to_double_mono) simp_all
  then have "to_double (to_double q * 100) \<le> 3500756619893837 / 35184372088832"
    by (simp only: b)
  then have "Math_round (to_double (to_double q * 100)) \<le> 99"
    unfolding Math_round_def by (simp add: floor_le_iff)
  then show ?thesis
    by (simp add: score_def js_mul_def js_div_def q_def)
qed

lemma sim_100_exact:
  assumes "100 \<le> sim products i j"
    and "length (normalize_spec (RawAssetData.name (products ! i))) < 200"
    and "length (normalize_spec (RawAssetData.name (products ! j))) < 200"
  shows "normalize_spec (RawAssetData.name (products ! i)) =
         normalize_spec (RawAssetData.name (products ! j))"
proof (rule ccontr)
  let ?a = "normalize_spec (RawAssetData.name (products ! i))"
  let ?b = "normalize_spec (RawAssetData.name (products ! j))"
  assume ne: "?a \<noteq> ?b"
  then have "edit_distance ?a ?b \<noteq> 0" by (simp only: edit_distance_0_iff not_False_eq_True)
  then have "0 < edit_distance ?a ?b" by simp
  moreover have "edit_distance ?a ?b \<le> max (length ?a) (length ?b)"
    by (rule edit_distance_le_max)
  moreover have "max (length ?a) (length ?b) < 200" using assms(2,3) by simp
  ultimately have "score (max (length ?a) (length ?b)) (edit_distance ?a ?b) \<le> 99"
    by (rule score_below_200)
  then have "sim products i j \<le> 99"
    using ne by (simp add: sim_def calculateSimilarity_eq)
  then show False using assms(1) by simp
qed

lemma name_example_record [simp]: "RawAssetData.name (example_record s n) = n"
  by (simp add: example_record_def)

lemma example_record_eq_iff [simp]:
  "example_record s n = example_record s' n' \<longleftrightarrow> s = s' \<and> n = n'"
  by (auto simp: example_record_def)

lemma calculateSimilarity_examples:
  "calculateSimilarity ''Bitcoin'' ''Bitcoin Cash'' = 64"
  "calculateSimilarity ''Bitcoin'' ''BitCoin'' = 100"
proof -
  have n1: "normalize_spec ''Bitcoin'' = ''bitcoin''" by code_simp
  have n2: "normalize_spec ''Bitcoin Cash'' = ''bitcoincash''" by code_simp
  have n3: "normalize_spec ''BitCoin'' = ''bitcoin''" by code_simp
  have "levenshteinDistance ''bitcoin'' ''bitcoincash'' = 4" by code_simp
  then have d: "edit_distance ''bitcoin'' ''bitcoincash'' = 4"
    by (simp only: levenshteinDistance_edit_distance)
  have m: "max (length ''bitcoin'') (length ''bitcoincash'') = 11" by simp
  show "calculateSimilarity ''Bitcoin'' ''Bitcoin Cash'' = 64"
    unfolding calculateSimilarity_eq n1 n2 d m by (simp add: score_11_4)
  show "calculateSimilarity ''Bitcoin'' ''BitCoin'' = 100"
    unfolding calculateSimilarity_eq n1 n3 by simp
qed

lemma findMatches_bitcoin:
  "findMatches [example_record ''Binance'' ''Bitcoin'', example_record ''CoinGecko'' ''Bitcoin Cash'',
      example_record ''Kraken'' ''BitCoin''] 80 =
   [(''Bitcoin'', [example_record ''Binance'' ''Bitcoin'', example_record ''Kraken'' ''BitCoin'']),
    (''Bitcoin Cash'', [example_record ''CoinGecko'' ''Bitcoin Cash''])]"
  by (simp add: findMatches_def seed_groups.simps scan_candidates.simps Let_def
      calculateSimilarity_examples)

lemma toLowerCase_unit_az09: "is_az09 c \<Longrightarrow> toLowerCase_unit c = c"
  by (auto simp: is_az09_def toLowerCase_unit_def Let_def)

lemma normalize_spec_az09: "\<forall>c \<in> set s. is_az09 c \<Longrightarrow> normalize_spec s = s"
  by (simp add: normalize_spec_def toLowerCase_def toLowerCase_unit_az09 map_idI)

lemma edit_distance_refl [simp]: "edit_distance xs xs = 0"
  by (simp add: edit_distance_0_iff)

lemma edit_distance_last_differs:
  assumes "a \<noteq> b"
  shows "edit_distance (xs @ [a]) (xs @ [b]) = 1"
proof -
  have "edit_distance (a # rev xs) (b # rev xs) \<le> edit_distance (rev xs) (rev xs) + 1"
    using assms by (simp add: min.coboundedI1 del: edit_distance_refl)
  then have "edit_distance (a # rev xs) (b # rev xs) \<le> 1"
    by (simp only: edit_distance_refl)
  moreover have "edit_distance (xs @ [a]) (xs @ [b]) = edit_distance (a # rev xs) (b # rev xs)"
    using edit_distance_rev [of "xs @ [a]" "xs @ [b]"] by (simp del: edit_distance.simps)
  ultimately have "edit_distance (xs @ [a]) (xs @ [b]) \<le> 1" by (simp only:)
  moreover have "edit_distance (xs @ [a]) (xs @ [b]) \<noteq> 0"
    using assms by (simp only: edit_distance_0_iff) simp
  ultimately show ?thesis by simp
qed

lemma calculateSimilarity_long:
  "calculateSimilarity (replicate 399 CHR ''a'' @ ''a'') (replicate 399 CHR ''a'' @ ''b'') = 100"
proof -
  have az: "is_az09 CHR ''a''" "is_az09 CHR ''b''"
    by (simp_all add: is_az09_def code_unit_def)
  have n: "normalize_spec (replicate 399 CHR ''a'' @ ''a'') = replicate 399 CHR ''a'' @ ''a''"
    "normalize_spec (replicate 399 CHR ''a'' @ ''b'') = replicate 399 CHR ''a'' @ ''b''"
    using az by (simp_all add: normalize_spec_az09)
  have d: "edit_distance (replicate 399 CHR ''a'' @ ''a'') (replicate 399 CHR ''a'' @ ''b'') = 1"
    by (rule edit_distance_last_differs) simp
  have m: "max (length (replicate 399 CHR ''a'' @ ''a'')) (length (replicate 399 CHR ''a'' @ ''b'')) = 400"
    by simp
  have ne: "replicate 399 CHR ''a'' @ ''a'' \<noteq> replicate 399 CHR ''a'' @ ''b''" by simp
  show ?thesis
    unfolding calculateSimilarity_eq n d m if_not_P [OF ne] by (rule score_400_1)
qed

section \<open>Doubles that need not be finite\<close>

lemma to_double_of_int: "to_double (of_int n) = of_int n"
proof -
  have "\<bar>of_int n :: rat\<bar> * 2 ^ k = of_int (\<bar>n\<bar> * 2 ^ k)" for k by simp
  then have "round_half_even (\<bar>of_int n\<bar> * 2 ^ k) = \<bar>n\<bar> * 2 ^ k" for k
    by (simp only: round_half_even_of_int)
  then show ?thesis
    by (simp add: to_double_def Let_def sgn_if)
qed

lemma overflow_above: "(2::rat) ^ 53 \<le> 2 ^ 1024 - 2 ^ 970"
  by simp

lemma to_number_below:
  assumes "0 \<le> m" "m < 2 ^ 53" "to_double m \<noteq> 0"
  shows "to_number neg m = Finite (if neg then - to_double m else to_double m)"
  using assms overflow_above by (simp add: to_number_def round_magnitude_def Let_def)

lemma to_number_eval:
  assumes "0 \<le> m" "k \<le> 1074" "2 ^ 52 \<le> m * 2 ^ k" "m * 2 ^ k < 2 ^ 53"
  shows "to_number neg m =
    Finite (if neg then - (of_int (round_half_even (m * 2 ^ k)) / 2 ^ k)
            else of_int (round_half_even (m * 2 ^ k)) / 2 ^ k)"
proof -
  have d: "to_double m = of_int (round_half_even (m * 2 ^ k)) / 2 ^ k"
    using assms by (rule to_double_eval)
  have "round_half_even (2 ^ 52) \<le> round_half_even (m * 2 ^ k)"
    using assms(3) by (rule round_half_even_mono)
  then have "0 < round_half_even (m * 2 ^ k)"
    using round_half_even_of_int [of "2 ^ 52"] by simp
  then have nz: "to_double m \<noteq> 0" unfolding d by simp
  have "m * 1 \<le> m * 2 ^ k" using assms(1) by (intro mult_left_mono) simp_all
  then have "m < 2 ^ 53" using assms(4) by simp
  then show ?thesis
    using to_number_below [OF assms(1) _ nz] d by simp
qed

lemma to_number_int:
  assumes "0 < n" "n < 2 ^ 53"
  shows "to_number neg (of_int n) = Finite (if neg then - of_int n else of_int n)"
proof -
  have "(of_int n :: rat) < of_int (2 ^ 53)" using assms(2) by (simp only: of_int_less_iff)
  then have "(of_int n :: rat) < 2 ^ 53" by simp
  then show ?thesis
    using assms(1) to_number_below [of "of_int n" neg] by (simp add: to_double_of_int)
qed

lemma to_number_0 [simp]: "to_number neg 0 = signed_zero neg"
  by (simp add: to_number_def round_magnitude_def)

lemma is_double_of_int:
  assumes "\<bar>n\<bar> < 2 ^ 53"
  shows "is_double (Finite (of_int n))"
proof (cases "n = 0")
  case True
  then show ?thesis by (simp add: is_double_def signed_zero_def)
next
  case False
  then have "0 < \<bar>n\<bar>" by simp
  then have "to_number (n < 0) (of_int \<bar>n\<bar>) =
      Finite (if n < 0 then - of_int \<bar>n\<bar> else of_int \<bar>n\<bar>)"
    using assms by (rule to_number_int)
  then show ?thesis by (simp add: is_double_def)
qed

lemma is_double_numeral:
  "numeral n < (2::int) ^ 53 \<Longrightarrow> is_double (Finite (numeral n))"
  "is_double (Finite 0)" "is_double (Finite 1)"
  using is_double_of_int [of "numeral n"] is_double_of_int [of 0] is_double_of_int [of 1]
  by simp_all

lemma number_add_exact:
  assumes "is_double (Finite (a + b))"
  shows "number_add (Finite a) (Finite b) = Finite (a + b)"
proof (cases "a + b = 0")
  case True
  then have "\<not> (a < 0 \<and> b < 0)" by auto
  then show ?thesis using True by (simp add: number_add_def is_infinity_def signed_zero_def)
next
  case False
  then show ?thesis
    using assms by (simp add: number_add_def is_infinity_def is_double_def Let_def)
qed

lemma number_div_exact:
  assumes "0 < b" "is_double (Finite (a / b))"
  shows "number_div (Finite a) (Finite b) = Finite (a / b)"
proof -
  have neg: "(a / b < 0) = (a < 0)" using assms(1) by (simp add: divide_less_0_iff)
  have mag: "\<bar>a\<bar> / \<bar>b\<bar> = \<bar>a / b\<bar>" by simp
  have "to_number (a / b < 0) \<bar>a / b\<bar> = Finite (a / b)"
    using assms(2) by (simp add: is_double_def)
  then have "to_number (a < 0) (\<bar>a\<bar> / \<bar>b\<bar>) = Finite (a / b)"
    by (simp only: neg mag)
  then show ?thesis
    using assms(1) by (simp add: number_div_def is_infinity_def Let_def)
qed

lemma number_div_one:
  assumes "is_double x"
  shows "number_div x (Finite 1) = x"
proof (cases x)
  case (Finite r)
  then show ?thesis
    using assms by (simp add: number_div_def is_infinity_def Let_def is_double_def)
qed (simp_all add: number_div_def is_infinity_def Let_def signed_infinity_def signed_zero_def)

lemma foldl_number_add_exact:
  "exact_sums a xs \<Longrightarrow> foldl number_add (Finite a) (map Finite xs) = Finite (a + sum_list xs)"
proof (induction xs arbitrary: a)
  case Nil
  show ?case by simp
next
  case (Cons x xs)
  then show ?case by (simp add: number_add_exact add.assoc)
qed

lemma double_mean_exact:
  assumes "xs \<noteq> []" "exact_sums 0 xs"
    "is_double (Finite (sum_list xs / of_nat (length xs)))"
  shows "double_mean (map Finite xs) = Finite (sum_list xs / of_nat (length xs))"
proof -
  have "0 < (of_nat (length xs) :: rat)" using assms(1) by simp
  then show ?thesis
    using assms(2,3) by (simp add: double_mean_def double_sum_def foldl_number_add_exact
        number_div_exact)
qed

lemma number_add_examples:
  "number_add (Finite 0) (Finite 100) = Finite 100"
  "number_add (Finite 100) (Finite 120) = Finite 220"
  "number_add (Finite 0) (Finite 2) = Finite 2"
  "number_add (Finite 0) (Finite 90) = Finite 90"
  "number_add (Finite 0) (Finite 0) = Finite 0"
  "number_add (Finite 0) (Finite 5) = Finite 5"
  "number_add (Finite 0) (Finite 10) = Finite 10"
  "number_add (Finite 10) (Finite 20) = Finite 30"
  "number_add (Finite 0) (Finite 20) = Finite 20"
  using number_add_exact [of 0 100] number_add_exact [of 100 120] number_add_exact [of 0 2]
    number_add_exact [of 0 90] number_add_exact [of 0 0] number_add_exact [of 0 5]
    number_add_exact [of 0 10] number_add_exact [of 10 20] number_add_exact [of 0 20]
  by (simp_all add: is_double_numeral)

lemma number_div_examples:
  "number_div (Finite 100) (Finite 1) = Finite 100"
  "number_div (Finite 90) (Finite (3 / 4)) = Finite 120"
  "number_div (Finite 2) (Finite 1) = Finite 2"
  "number_div (Finite 90) (Finite 1) = Finite 90"
  "number_div (Finite 220) (Finite 2) = Finite 110"
  using number_div_exact [of 1 100] number_div_exact [of "3 / 4" 90] number_div_exact [of 1 2]
    number_div_exact [of 1 90] number_div_exact [of 2 220]
  by (simp_all add: is_double_numeral)

lemma number_div_zero: "number_div (Finite 90) (Finite 0) = PosInf"
  by (simp add: number_div_def is_infinity_def signed_infinity_def)

lemma number_div_NaN: "number_div x NaN = NaN"
  by (simp add: number_div_def)

lemma number_add_0_1_0_2:
  "number_add double_0_1 double_0_2 = Finite (1351079888211149 / 4503599627370496)"
  unfolding double_0_1_def double_0_2_def
  by (simp add: number_add_def is_infinity_def Let_def)
     (subst to_number_eval [where k = 54]; simp add: round_half_even_def)

lemma down_shift_eq:
  "k \<le> fuel \<Longrightarrow> 2 ^ 52 \<le> x / 2 ^ k \<Longrightarrow> x / 2 ^ k < 2 ^ 53 \<Longrightarrow> down_shift fuel x = k"
proof (induction fuel arbitrary: x k)
  case 0
  then show ?case by simp
next
  case (Suc fuel)
  show ?case
  proof (cases k)
    case 0
    then show ?thesis using Suc.prems by simp
  next
    case (Suc k')
    have "2 ^ 52 * 2 ^ k \<le> x" using Suc.prems(2) by (simp add: pos_le_divide_eq)
    moreover have "(2::rat) ^ 53 \<le> 2 ^ 52 * 2 ^ k" unfolding Suc by simp
    ultimately have "\<not> x < 2 ^ 53" by simp
    moreover have "down_shift fuel (x / 2) = k'"
      using Suc.prems Suc by (intro Suc.IH) simp_all
    ultimately show ?thesis using Suc by simp
  qed
qed

lemma to_number_eval_large:
  assumes "0 < k" "k \<le> 971" "2 ^ 52 \<le> m / 2 ^ k" "m / 2 ^ k < 2 ^ 53" "m < 2 ^ 1024 - 2 ^ 970"
  shows "to_number neg m =
    Finite (if neg then - (of_int (round_half_even (m / 2 ^ k)) * 2 ^ k)
            else of_int (round_half_even (m / 2 ^ k)) * 2 ^ k)"
proof -
  have k: "down_shift 971 m = k" using assms(2,3,4) by (rule down_shift_eq)
  have "2 ^ 52 * 2 ^ k \<le> m" using assms(3) by (simp add: pos_le_divide_eq)
  moreover have "(2::rat) ^ 52 * 2 ^ 1 \<le> 2 ^ 52 * 2 ^ k"
    using assms(1) by (intro mult_left_mono power_increasing) simp_all
  ultimately have large: "\<not> m < 2 ^ 53" by simp
  have "round_half_even (2 ^ 52) \<le> round_half_even (m / 2 ^ k)"
    using assms(3) by (rule round_half_even_mono)
  then have "0 < round_half_even (m / 2 ^ k)"
    using round_half_even_of_int [of "2 ^ 52"] by simp
  then have "(of_int (round_half_even (m / 2 ^ k)) :: rat) * 2 ^ k \<noteq> 0" by simp
  then show ?thesis
    using assms(5) large by (simp add: to_number_def round_magnitude_def Let_def k)
qed

lemma is_double_1e308: "is_double double_1e308"
  unfolding double_1e308_def is_double_def
  by simp (subst to_number_eval_large [where k = 971]; simp)

lemma double_mean_rounds:
  "double_mean [double_0_1, double_0_2] = Finite (1351079888211149 / 9007199254740992)"
proof -
  have "number_add (Finite 0) double_0_1 = double_0_1"
    unfolding double_0_1_def
    by (simp add: number_add_def is_infinity_def Let_def)
       (subst to_number_eval [where k = 56]; simp)
  moreover have "number_div (Finite (1351079888211149 / 4503599627370496)) (Finite 2) =
      Finite (1351079888211149 / 9007199254740992)"
    by (simp add: number_div_def is_infinity_def Let_def)
       (subst to_number_eval [where k = 55]; simp)
  ultimately show ?thesis
    by (simp add: double_mean_def double_sum_def number_add_0_1_0_2)
qed

lemma exact_mean_0_1_0_2:
  "(exact double_0_1 + exact double_0_2) / 2 = 10808639105689191 / 72057594037927936"
  "(10808639105689191 / 72057594037927936 :: rat) \<noteq> 1351079888211149 / 9007199254740992"
  by (simp_all add: double_0_1_def double_0_2_def)

lemma number_add_overflows: "number_add double_1e308 double_1e308 = PosInf"
  by (simp add: double_1e308_def number_add_def is_infinity_def Let_def to_number_def
      signed_infinity_def)

lemma is_double_0_1: "is_double double_0_1"
  unfolding double_0_1_def is_double_def
  by simp (subst to_number_eval [where k = 56]; simp)

lemma is_double_0_2: "is_double double_0_2"
  unfolding double_0_2_def is_double_def
  by simp (subst to_number_eval [where k = 55]; simp)

lemma is_double_0_9: "is_double double_0_9"
  unfolding double_0_9_def is_double_def
  by simp (subst to_number_eval [where k = 53]; simp)

lemma number_div_100_0_9:
  "number_div (Finite 100) double_0_9 = Finite (3909374676536889 / 35184372088832)"
  unfolding double_0_9_def
  by (simp add: number_div_def is_infinity_def Let_def)
     (subst to_number_eval [where k = 46]; simp add: round_half_even_def)

section \<open>The aggregator's methods\<close>

lemma Promise_all_fulfilled:
  "Promise_all (map guarded_fetch srcs) = Fulfilled vs \<Longrightarrow>
   vs = map (\<lambda>s. case fetchData s of
                   Fulfilled records \<Rightarrow> records | Rejected e \<Rightarrow> [] | Pending \<Rightarrow> []) srcs"
proof (induction srcs arbitrary: vs)
  case Nil
  then show ?case by simp
next
  case (Cons s srcs)
  then show ?case
    by (auto simp: guarded_fetch_def split: promise.splits sum.splits)
qed

lemma Promise_all_quiet:
  "\<forall>s \<in> set srcs. logged_quietly s \<Longrightarrow>
   Promise_all (map guarded_fetch srcs) =
     (if \<exists>s \<in> set srcs. fetchData s = Pending then Pending
      else Fulfilled (map (\<lambda>s. case fetchData s of
                   Fulfilled records \<Rightarrow> records | Rejected e \<Rightarrow> [] | Pending \<Rightarrow> []) srcs))"
proof (induction srcs)
  case Nil
  show ?case by simp
next
  case (Cons s srcs)
  then show ?case
    by (cases "fetchData s") (auto simp: guarded_fetch_def logged_quietly_def)
qed

lemma Promise_all_rejected:
  "Promise_all (map guarded_fetch srcs) = Rejected e \<Longrightarrow> \<exists>s \<in> set srcs. \<not> logged_quietly s"
proof (induction srcs)
  case Nil
  then show ?case by simp
next
  case (Cons s srcs)
  then show ?case
    by (cases "fetchData s")
       (auto simp: guarded_fetch_def logged_quietly_def split: promise.splits sum.splits)
qed

lemma Promise_all_Cons_rejected:
  "Promise_all ps = Rejected e \<Longrightarrow> \<exists>e'. Promise_all (p # ps) = Rejected e'"
  by (cases p) simp_all

lemma guarded_fetch_unquiet: "\<not> logged_quietly s \<Longrightarrow> \<exists>e. guarded_fetch s = Rejected e"
  by (cases "fetchData s") (auto simp: guarded_fetch_def logged_quietly_def split: sum.splits)

lemma Promise_all_unquiet:
  "\<exists>s \<in> set srcs. \<not> logged_quietly s \<Longrightarrow> \<exists>e. Promise_all (map guarded_fetch srcs) = Rejected e"
proof (induction srcs)
  case Nil
  then show ?case by simp
next
  case (Cons s srcs)
  show ?case
  proof (cases "logged_quietly s")
    case True
    then have "\<exists>s \<in> set srcs. \<not> logged_quietly s" using Cons.prems by auto
    then obtain e where "Promise_all (map guarded_fetch srcs) = Rejected e"
      using Cons.IH by blast
    then show ?thesis
      using Promise_all_Cons_rejected [of "map guarded_fetch srcs" e "guarded_fetch s"] by simp
  next
    case False
    then obtain e where "guarded_fetch s = Rejected e" using guarded_fetch_unquiet by blast
    then show ?thesis by simp
  qed
qed

lemma fetchAllSources_snd: "snd (fetchAllSources this) = this"
  by (simp add: fetchAllSources_def split: promise.splits)

lemma fetchAllSources_fulfilled:
  "fst (fetchAllSources this) = Fulfilled rawData \<Longrightarrow> rawData = fetched_records this"
  using Promise_all_fulfilled [of "DataAggregator.sources this"]
  by (auto simp: fetchAllSources_def fetched_records_def split: promise.splits)

lemma fetchAllSources_quiet:
  assumes "\<forall>s \<in> set (DataAggregator.sources this). logged_quietly s"
  shows "fetchAllSources this =
     (if \<exists>s \<in> set (DataAggregator.sources this). fetchData s = Pending then (Pending, this)
      else (Fulfilled (fetched_records this), this))"
proof (cases "\<exists>s \<in> set (DataAggregator.sources this). fetchData s = Pending")
  case True
  have "Promise_all (map guarded_fetch (DataAggregator.sources this)) = Pending"
    using Promise_all_quiet [OF assms] True by (simp only: if_True)
  then show ?thesis
    using True by (simp add: fetchAllSources_def)
next
  case False
  have "Promise_all (map guarded_fetch (DataAggregator.sources this)) =
     Fulfilled (map (\<lambda>s. case fetchData s of
                   Fulfilled records \<Rightarrow> records | Rejected e \<Rightarrow> [] | Pending \<Rightarrow> [])
             (DataAggregator.sources this))"
    using Promise_all_quiet [OF assms] False by (simp only: if_False)
  then show ?thesis
    using False by (simp add: fetchAllSources_def fetched_records_def)
qed

lemma normalize_group_nonempty:
  "snd entry \<noteq> [] \<Longrightarrow> normalize_group this now entry = Inr (group_asset this now entry)"
  by (cases entry; cases "snd entry")
     (simp_all add: normalize_group_def group_asset_def Let_def double_mean_def double_sum_def
       foldl_map)

lemma normalize_groups_eq:
  "\<forall>e \<in> set entries. snd e \<noteq> [] \<Longrightarrow>
   normalize_groups this clock k entries =
     Inr (map (\<lambda>(i, e). group_asset this (clock i) e) (zip [k..<k + length entries] entries))"
proof (induction entries arbitrary: k)
  case Nil
  show ?case by simp
next
  case (Cons e entries)
  have "k < k + length (e # entries)" by simp
  then have "[k..<k + length (e # entries)] = k # [Suc k..<k + length (e # entries)]"
    by (rule upt_conv_Cons)
  then have "[k..<k + length (e # entries)] = k # [Suc k..<Suc k + length entries]"
    by simp
  then show ?case
    using Cons.prems Cons.IH [of "Suc k"] by (simp add: normalize_group_nonempty)
qed

lemma anchored_nonempty: "anchored products threshold e \<Longrightarrow> snd e \<noteq> []"
  by (auto simp: anchored_def)

lemma normalize_groups_fetched:
  "normalize_groups this clock 0 (findMatches (fetched_records this) 80) =
     Inr (emitted_assets this clock)"
proof -
  have "\<forall>e \<in> set (findMatches (fetched_records this) 80). snd e \<noteq> []"
    using findMatches_anchored anchored_nonempty by blast
  then show ?thesis
    using normalize_groups_eq [of "findMatches (fetched_records this) 80" this clock 0]
    by (simp add: emitted_assets_def)
qed

lemma aggregateData_eq:
  "aggregateData this clock =
     (case fst (fetchAllSources this) of
        Fulfilled rawData \<Rightarrow> Fulfilled (emitted_assets this clock)
      | Rejected e \<Rightarrow> Rejected e
      | Pending \<Rightarrow> Pending, this)"
proof (cases "fst (fetchAllSources this)")
  case (Fulfilled rawData)
  then have "fetchAllSources this = (Fulfilled (fetched_records this), this)"
    using fetchAllSources_fulfilled [of this rawData] fetchAllSources_snd [of this]
    by (metis prod.collapse)
  then show ?thesis
    by (simp add: aggregateData_def Let_def normalize_groups_fetched)
next
  case (Rejected e)
  then have "fetchAllSources this = (Rejected e, this)"
    using fetchAllSources_snd [of this] by (metis prod.collapse)
  then show ?thesis by (simp add: aggregateData_def)
next
  case Pending
  then have "fetchAllSources this = (Pending, this)"
    using fetchAllSources_snd [of this] by (metis prod.collapse)
  then show ?thesis by (simp add: aggregateData_def)
qed

lemma aggregateData_snd: "snd (aggregateData this clock) = this"
  by (simp add: aggregateData_eq)

lemma aggregateData_fulfilled:
  "fst (aggregateData this clock) = Fulfilled assets \<Longrightarrow> assets = emitted_assets this clock"
  by (simp add: aggregateData_eq split: promise.splits)

lemma aggregateData_total:
  "fst (fetchAllSources this) = Fulfilled rawData \<Longrightarrow>
   aggregateData this clock = (Fulfilled (emitted_assets this clock), this)"
  by (simp add: aggregateData_eq)

lemma emitted_assets_length:
  "length (emitted_assets this clock) = length (findMatches (fetched_records this) 80)"
  by (simp add: emitted_assets_def)

lemma emitted_assets_nth:
  "k < length (findMatches (fetched_records this) 80) \<Longrightarrow>
   emitted_assets this clock ! k =
     group_asset this (clock k) (findMatches (fetched_records this) 80 ! k)"
  by (simp add: emitted_assets_def)

lemma convertToUSD_rate_of:
  "convertToUSD this price' currency' =
     number_div price' (rate_of (exchangeRates this) currency')"
  by (simp add: convertToUSD_def rate_of_def num_or_def map_get_def split: option.splits)

lemma map_of_map_set: "map_of (map_set m k v) = (map_of m)(k \<mapsto> v)"
proof (induction m)
  case Nil
  show ?case by simp
next
  case (Cons e m)
  obtain k' v' where e: "e = (k', v')" by (cases e)
  show ?case using Cons unfolding e by (cases "k' = k") auto
qed

lemma map_of_fold_map_set:
  "map_of (fold (\<lambda>(currency, rate) m. map_set m currency rate) rates m) =
     map_of m ++ map_of (rev rates)"
proof (induction rates arbitrary: m)
  case Nil
  show ?case by simp
next
  case (Cons e rates)
  obtain k v where e: "e = (k, v)" by (cases e)
  have "map_of (fold (\<lambda>(currency, rate) m. map_set m currency rate) (e # rates) m) =
      map_of (map_set m k v) ++ map_of (rev rates)"
    using Cons [of "map_set m k v"] by (simp add: e)
  also have "\<dots> = map_of m ++ map_of (rev rates @ [(k, v)])"
    by (simp add: map_of_map_set map_add_upd_left fun_eq_iff map_add_def split: option.splits)
  finally show ?case by (simp add: e)
qed

lemma keys_fold_map_set:
  "fst ` set (fold (\<lambda>(currency, rate) m. map_set m currency rate) rates m) =
     fst ` set m \<union> fst ` set rates"
proof (induction rates arbitrary: m)
  case Nil
  show ?case by simp
next
  case (Cons e rates)
  obtain k v where e: "e = (k, v)" by (cases e)
  show ?case using Cons [of "map_set m k v"] by (auto simp: e keys_map_set)
qed

lemma is_az09_not_dash: "is_az09 c \<Longrightarrow> c \<noteq> CHR ''-''"
  by (auto simp: is_az09_def code_unit_def Let_def)

lemma collapse_dashes_replace: "collapse_dashes (replace_non_az09 s) = collapse_runs s"
proof (induction s rule: collapse_runs.induct)
  case 1
  show ?case by (simp add: replace_non_az09_def)
next
  case (2 c)
  show ?case by (simp add: replace_non_az09_def is_az09_not_dash)
next
  case (3 c d cs)
  show ?case
  proof (cases "is_az09 c")
    case True
    then show ?thesis
      using "3.IH"(1) by (simp add: replace_non_az09_def is_az09_not_dash)
  next
    case c: False
    show ?thesis
    proof (cases "is_az09 d")
      case True
      then show ?thesis
        using c "3.IH"(2) by (simp add: replace_non_az09_def is_az09_not_dash)
    next
      case False
      then show ?thesis
        using c "3.IH"(3) by (simp add: replace_non_az09_def)
    qed
  qed
qed

lemma collapse_runs_head:
  "is_az09 d \<Longrightarrow> \<exists>rest. collapse_runs (d # cs) = d # rest"
  by (cases cs) simp_all

lemma single_dashes_Cons: "single_dashes (c # cs) \<Longrightarrow> single_dashes cs"
  by (cases cs) simp_all

lemma single_dashes_Cons_other: "c \<noteq> CHR ''-'' \<Longrightarrow> single_dashes cs \<Longrightarrow> single_dashes (c # cs)"
  by (cases cs) simp_all

lemma single_dashes_collapse_runs: "single_dashes (collapse_runs s)"
proof (induction s rule: collapse_runs.induct)
  case 1
  show ?case by simp
next
  case (2 c)
  show ?case by simp
next
  case (3 c d cs)
  show ?case
  proof (cases "is_az09 c")
    case True
    then show ?thesis
      using "3.IH"(1) by (simp add: single_dashes_Cons_other is_az09_not_dash)
  next
    case c: False
    show ?thesis
    proof (cases "is_az09 d")
      case True
      then obtain rest where rest: "collapse_runs (d # cs) = d # rest"
        using collapse_runs_head by blast
      have "single_dashes (d # rest)" using "3.IH"(2) [OF c True] rest by simp
      then have "single_dashes (CHR ''-'' # d # rest)"
        using True by (simp add: is_az09_not_dash)
      then show ?thesis using c True rest by simp
    next
      case False
      then show ?thesis using c "3.IH"(3) by simp
    qed
  qed
qed

lemma single_dashes_last:
  "single_dashes (v @ [CHR ''-'']) \<Longrightarrow> v = [] \<or> last v \<noteq> CHR ''-''"
  by (induction v rule: single_dashes.induct) simp_all

lemma strip_edge_dashes_trim:
  assumes "single_dashes t"
  shows "strip_edge_dashes t = trim_dashes t"
proof -
  define s1 where "s1 = (case t of [] \<Rightarrow> [] | c # cs \<Rightarrow> if c = CHR ''-'' then cs else t)"
  have front: "dropWhile (\<lambda>c. c = CHR ''-'') t = s1"
  proof (cases t)
    case Nil
    then show ?thesis by (simp add: s1_def)
  next
    case (Cons c cs)
    show ?thesis
    proof (cases "c = CHR ''-''")
      case True
      have "cs = [] \<or> hd cs \<noteq> CHR ''-''"
        using assms Cons True by (cases cs) simp_all
      then have "dropWhile (\<lambda>c. c = CHR ''-'') cs = cs" by (cases cs) auto
      then show ?thesis using Cons True by (simp add: s1_def)
    next
      case False
      then show ?thesis using Cons by (simp add: s1_def)
    qed
  qed
  have sd: "single_dashes s1"
    using assms by (cases t) (auto simp: s1_def dest: single_dashes_Cons)
  have rear: "rev (dropWhile (\<lambda>c. c = CHR ''-'') (rev s1)) =
      (if s1 \<noteq> [] \<and> last s1 = CHR ''-'' then butlast s1 else s1)"
  proof (cases s1 rule: rev_cases)
    case Nil
    then show ?thesis by simp
  next
    case (snoc v c)
    show ?thesis
    proof (cases "c = CHR ''-''")
      case True
      then have "v = [] \<or> last v \<noteq> CHR ''-''"
        using sd snoc by (simp add: single_dashes_last)
      then have "dropWhile (\<lambda>c. c = CHR ''-'') (rev v) = rev v"
        by (cases v rule: rev_cases) auto
      then show ?thesis using snoc True by simp
    next
      case False
      then show ?thesis using snoc by simp
    qed
  qed
  show ?thesis
    unfolding trim_dashes_def front rear
    by (simp add: strip_edge_dashes_def s1_def Let_def)
qed

lemma generateId_slug_spec: "generateId name' = slug_spec name'"
  by (simp add: generateId_def slug_spec_def collapse_dashes_replace
      strip_edge_dashes_trim single_dashes_collapse_runs)

lemma generateId_examples:
  "generateId ''Binance Coin (BNB)'' = ''binance-coin-bnb''"
  "generateId ''Bitcoin'' = ''bitcoin''"
  "generateId ''XRP'' = ''xrp''"
  "generateId ''BitCoin'' = ''bitcoin''"
  by code_simp+

lemma floor_rat_one_div [simp]: "\<lfloor>(1::rat) / numeral b\<rfloor> = 1 div numeral b"
  by (metis floor_divide_of_int_eq of_int_1 of_int_numeral)

lemma calculateSimilarity_bitcoin_xrp: "calculateSimilarity ''Bitcoin'' ''XRP'' = 0"
proof -
  have n1: "normalize_spec ''Bitcoin'' = ''bitcoin''" by code_simp
  have n2: "normalize_spec ''XRP'' = ''xrp''" by code_simp
  have "levenshteinDistance ''bitcoin'' ''xrp'' = 7" by code_simp
  then have d: "edit_distance ''bitcoin'' ''xrp'' = 7"
    by (simp only: levenshteinDistance_edit_distance)
  have m: "max (length ''bitcoin'') (length ''xrp'') = 7" by simp
  have "score 7 7 = 0"
    by (simp add: score_def js_mul_def js_div_def Math_round_def)
  then show ?thesis
    unfolding calculateSimilarity_eq n1 n2 d m by simp
qed

lemma example_names [simp]:
  "RawAssetData.name btc_binance = ''Bitcoin''" "RawAssetData.name xrp_binance = ''XRP''"
  "RawAssetData.name btc_coingecko = ''BitCoin''"
  by (simp_all add: btc_binance_def xrp_binance_def btc_coingecko_def)

lemma findMatches_example:
  "findMatches [btc_binance, xrp_binance, btc_coingecko] 80 =
     [(''Bitcoin'', [btc_binance, btc_coingecko]), (''XRP'', [xrp_binance])]"
  by (simp add: findMatches_def seed_groups.simps scan_candidates.simps Let_def
      calculateSimilarity_examples calculateSimilarity_bitcoin_xrp)

lemma cluster_example:
  "cluster (joins [btc_binance, xrp_binance, btc_coingecko] 80)
     [0..<length [btc_binance, xrp_binance, btc_coingecko]] = [[0, 2], [1]]"
proof -
  have "joins [btc_binance, xrp_binance, btc_coingecko] 80 0 (Suc (Suc 0))"
    "\<not> joins [btc_binance, xrp_binance, btc_coingecko] 80 0 (Suc 0)"
    by (simp_all add: joins_def sim_def calculateSimilarity_examples
        calculateSimilarity_bitcoin_xrp)
  moreover have "[0..<length [btc_binance, xrp_binance, btc_coingecko]] = [0, Suc 0, Suc (Suc 0)]"
    by (simp add: upt_rec)
  ultimately show ?thesis by (simp add: numeral_2_eq_2)
qed

lemma findMatches_single:
  "findMatches [r] threshold = [(RawAssetData.name r, [r])]"
  by (simp add: findMatches_def seed_groups.simps scan_candidates.simps Let_def)

lemma example_aggregator_fields:
  "fetched_records example_aggregator = [btc_binance, xrp_binance, btc_coingecko]"
  "exchangeRates example_aggregator = [(''USD'', Finite 1), (''EUR'', Finite (3 / 4))]"
  by (simp_all add: example_aggregator_def fetched_records_def registerSource_def
      updateExchangeRates_def new_DataAggregator_def example_source_def)

lemma example_aggregator_sources:
  "DataAggregator.sources example_aggregator =
     [example_source ''Binance'' (Fulfilled [btc_binance, xrp_binance]),
      example_source ''Kraken'' (Rejected (Printable ''timeout'')),
      example_source ''CoinGecko'' (Fulfilled [btc_coingecko])]"
  by (simp add: example_aggregator_def registerSource_def updateExchangeRates_def
      new_DataAggregator_def)

lemma fetchAllSources_example:
  "fetchAllSources example_aggregator =
     (Fulfilled [btc_binance, xrp_binance, btc_coingecko], example_aggregator)"
proof -
  have "fst (fetchAllSources example_aggregator) =
      Fulfilled [btc_binance, xrp_binance, btc_coingecko]"
    by (simp add: fetchAllSources_def example_aggregator_sources guarded_fetch_def
        example_source_def)
  then show ?thesis
    using fetchAllSources_snd [of example_aggregator] by (metis prod.collapse)
qed

lemma zero_rate_aggregator_fields:
  "fetched_records zero_rate_aggregator = [btc_coingecko]"
  "exchangeRates zero_rate_aggregator = [(''USD'', Finite 1), (''EUR'', Finite 0)]"
  by (simp_all add: zero_rate_aggregator_def fetched_records_def registerSource_def
      updateExchangeRates_def new_DataAggregator_def example_source_def)

lemma fetchAllSources_zero_rate:
  "fst (fetchAllSources zero_rate_aggregator) = Fulfilled [btc_coingecko]"
  by (simp add: fetchAllSources_def zero_rate_aggregator_def registerSource_def
      updateExchangeRates_def new_DataAggregator_def guarded_fetch_def example_source_def)

lemma js_unique_examples:
  "js_unique [''Binance'', ''CoinGecko''] = [''Binance'', ''CoinGecko'']"
  "js_unique [''Binance''] = [''Binance'']" "js_unique [''CoinGecko''] = [''CoinGecko'']"
  by (simp_all add: js_unique_def)

lemma emitted_assets_example:
  "emitted_assets example_aggregator clock =
     [\<lparr>id = ''bitcoin'', name = ''Bitcoin'', symbol = ''BTC'', price = Finite 110,
       change24h = Finite 0, volume = Finite 30, marketCap = Finite 5,
       sources = [''Binance'', ''CoinGecko''], lastUpdated = clock 0\<rparr>,
      \<lparr>id = ''xrp'', name = ''XRP'', symbol = [], price = Finite 2, change24h = Finite 0,
       volume = Finite 0, marketCap = Finite 0, sources = [''Binance''],
       lastUpdated = clock 1\<rparr>]"
  unfolding emitted_assets_def example_aggregator_fields findMatches_example
  by (simp add: group_asset_def generateId_examples js_unique_examples double_mean_def
      double_sum_def convertToUSD_rate_of rate_of_def example_aggregator_fields str_or_def
      num_or_def falsy_def number_add_examples number_div_examples
      btc_binance_def xrp_binance_def btc_coingecko_def upt_conv_Cons)

lemma aggregateData_example:
  "aggregateData example_aggregator clock =
     (Fulfilled (emitted_assets example_aggregator clock), example_aggregator)"
  using fetchAllSources_example by (intro aggregateData_total) simp

lemma emitted_assets_zero_rate:
  "emitted_assets zero_rate_aggregator clock =
     [\<lparr>id = ''bitcoin'', name = ''BitCoin'', symbol = ''XBT'', price = Finite 90,
       change24h = Finite 0, volume = Finite 20, marketCap = Finite 5,
       sources = [''CoinGecko''], lastUpdated = clock 0\<rparr>]"
  unfolding emitted_assets_def zero_rate_aggregator_fields findMatches_single
  by (simp add: group_asset_def generateId_examples js_unique_examples double_mean_def
      double_sum_def convertToUSD_rate_of rate_of_def zero_rate_aggregator_fields str_or_def
      num_or_def falsy_def number_add_examples number_div_examples btc_coingecko_def)

lemma aggregateData_zero_rate:
  "aggregateData zero_rate_aggregator clock =
     (Fulfilled (emitted_assets zero_rate_aggregator clock), zero_rate_aggregator)"
  using fetchAllSources_zero_rate by (rule aggregateData_total)

lemma fetchAllSources_unprintable:
  "fetchAllSources unprintable_aggregator =
     (Rejected (Printable ''inspect failed''), unprintable_aggregator)"
proof -
  have "fst (fetchAllSources unprintable_aggregator) = Rejected (Printable ''inspect failed'')"
    by (simp add: fetchAllSources_def unprintable_aggregator_def registerSource_def
        new_DataAggregator_def guarded_fetch_def example_source_def)
  then show ?thesis
    using fetchAllSources_snd [of unprintable_aggregator] by (metis prod.collapse)
qed

lemma anchored_head:
  "anchored products threshold e \<Longrightarrow> RawAssetData.name (hd (snd e)) = fst e"
  by (auto simp: anchored_def)

section \<open>The claims\<close>

text \<open>
  C1, as amended. \<open>calculateSimilarity a b\<close> is 100 when the two normalisations
  (lowercased, every character outside \<open>[a-z0-9]\<close> removed) are equal, also when both are
  empty: the branch that returns 0 for two empty normalisations is never reached.
  Otherwise it is \<open>Math.round(((maxLen - distance) / maxLen) * 100)\<close>, the quotient and
  the product rounded to doubles as the code computes them, where \<open>distance\<close> is the
  Levenshtein distance of the normalisations (\<open>edit_distance\<close>, the least number of
  edits by \<open>edit_distance_least\<close>) and \<open>maxLen\<close> the larger of their lengths. The
  result is an integer between 0 and 100.
\<close>

theorem calculateSimilarity_spec:
  "calculateSimilarity a b =
     (let norm1 = normalize_spec a;
          norm2 = normalize_spec b;
          maxLen = max (length norm1) (length norm2);
          distance = edit_distance norm1 norm2
      in if norm1 = norm2 then 100
         else Math_round (js_mul (js_div (of_nat maxLen - of_nat distance) (of_nat maxLen)) 100))
   \<and> normalizeText a = normalize_spec a \<and> normalizeText b = normalize_spec b
   \<and> 0 \<le> calculateSimilarity a b \<and> calculateSimilarity a b \<le> 100"
  using calculateSimilarity_range [of a b]
  by (simp add: calculateSimilarity_eq score_def Let_def normalizeText_spec)

text \<open>
  The theorem at three pairs of names: an inexact match, an exact match after
  normalisation, and two names whose normalisations are both empty.
\<close>

theorem calculateSimilarity_spec_witness:
  "calculateSimilarity ''Bitcoin'' ''Bitcoin Cash'' = 64 \<and>
   calculateSimilarity ''Bitcoin'' ''BitCoin'' = 100 \<and>
   calculateSimilarity '''' ''--'' = 100"
proof -
  have n1: "normalize_spec ''Bitcoin'' = ''bitcoin''" by code_simp
  have n2: "normalize_spec ''Bitcoin Cash'' = ''bitcoincash''" by code_simp
  have n3: "normalize_spec ''BitCoin'' = ''bitcoin''" by code_simp
  have n4: "normalize_spec '''' = []" "normalize_spec ''--'' = []" by code_simp+
  have "levenshteinDistance ''bitcoin'' ''bitcoincash'' = 4" by code_simp
  then have d: "edit_distance ''bitcoin'' ''bitcoincash'' = 4"
    by (simp only: levenshteinDistance_edit_distance)
  have "calculateSimilarity ''Bitcoin'' ''Bitcoin Cash'' = score 11 4"
    using calculateSimilarity_spec [of "''Bitcoin''" "''Bitcoin Cash''", THEN conjunct1]
    unfolding Let_def n1 n2 d by (simp add: score_def del: edit_distance.simps)
  moreover have "calculateSimilarity ''Bitcoin'' ''BitCoin'' = 100"
    using calculateSimilarity_spec [of "''Bitcoin''" "''BitCoin''", THEN conjunct1]
    unfolding Let_def n1 n3 by (simp del: edit_distance.simps)
  moreover have "calculateSimilarity '''' ''--'' = 100"
    using calculateSimilarity_spec [of "''''" "''--''", THEN conjunct1]
    unfolding Let_def n4 by (simp del: edit_distance.simps)
  ultimately show ?thesis by (simp only: score_11_4 simp_thms)
qed

text \<open>
  C1 as it is stated fails where both normalisations are empty: the names \<open>!\<close> and
  \<open>?\<close> normalise to the empty string, and the score is 100, not 0.
\<close>

theorem calculateSimilarity_both_empty:
  "normalizeText ''!'' = [] \<and> normalizeText ''?'' = [] \<and> calculateSimilarity ''!'' ''?'' = 100"
  by code_simp

text \<open>
  C2, as amended. As long as the log call of the handler does not throw on an adapter's
  failure, \<open>fetchAllSources\<close> is never rejected. It waits for every adapter: it does not
  settle while the fetch of some adapter has not, and when all have settled it is
  fulfilled with the concatenation of the adapters' records in registration order, each
  adapter's records in the order it gave them, an adapter whose fetch fails contributing
  none. With two adapters registered, one of which fails, the result is exactly the
  other's records. (\<open>Promise.all\<close> keeps the order of the adapters, whenever each of
  them settles.)
\<close>

theorem fetchAllSources_isolates_failures:
  assumes "\<forall>s \<in> set (DataAggregator.sources this). logged_quietly s"
  shows "(\<forall>e. fst (fetchAllSources this) \<noteq> Rejected e) \<and>
   (fst (fetchAllSources this) = Pending \<longleftrightarrow>
      (\<exists>s \<in> set (DataAggregator.sources this). fetchData s = Pending)) \<and>
   ((\<forall>s \<in> set (DataAggregator.sources this). fetchData s \<noteq> Pending) \<longrightarrow>
      fetchAllSources this =
        (Fulfilled (concat (map (\<lambda>s. case fetchData s of
                                       Fulfilled records \<Rightarrow> records
                                     | Rejected e \<Rightarrow> []
                                     | Pending \<Rightarrow> [])
                  (DataAggregator.sources this))), this)) \<and>
   (DataAggregator.sources this = [s1, s2] \<and> fetchData s1 = Rejected e1 \<and>
    fetchData s2 = Fulfilled records
      \<longrightarrow> fst (fetchAllSources this) = Fulfilled records) \<and>
   (DataAggregator.sources this = [s1, s2] \<and> fetchData s1 = Fulfilled records \<and>
    fetchData s2 = Rejected e1
      \<longrightarrow> fst (fetchAllSources this) = Fulfilled records)"
proof -
  let ?pending = "\<exists>s \<in> set (DataAggregator.sources this). fetchData s = Pending"
  have result: "fetchAllSources this =
      (if ?pending then (Pending, this) else (Fulfilled (fetched_records this), this))"
    using assms by (rule fetchAllSources_quiet)
  have "fst (fetchAllSources this) \<noteq> Rejected e" for e
    unfolding result by simp
  moreover have "fst (fetchAllSources this) = Pending \<longleftrightarrow> ?pending"
    unfolding result by simp
  moreover have "fetchAllSources this = (Fulfilled (fetched_records this), this)"
    if "\<forall>s \<in> set (DataAggregator.sources this). fetchData s \<noteq> Pending"
    using that unfolding result by simp
  moreover have "fst (fetchAllSources this) = Fulfilled records"
    if "DataAggregator.sources this = [s1, s2]" "fetchData s1 = Rejected e1"
      "fetchData s2 = Fulfilled records"
    using that unfolding result by (simp add: fetched_records_def)
  moreover have "fst (fetchAllSources this) = Fulfilled records"
    if "DataAggregator.sources this = [s1, s2]" "fetchData s1 = Fulfilled records"
      "fetchData s2 = Rejected e1"
    using that unfolding result by (simp add: fetched_records_def)
  ultimately show ?thesis
    unfolding fetched_records_def by blast
qed

text \<open>
  Two adapters, the first failing with a reason that is printed; and the example with
  three, the second failing.
\<close>

theorem fetchAllSources_isolates_failures_witness:
  "fst (fetchAllSources
     (registerSource
       (registerSource new_DataAggregator
         (example_source ''Kraken'' (Rejected (Printable ''timeout''))))
       (example_source ''CoinGecko'' (Fulfilled [btc_coingecko])))) = Fulfilled [btc_coingecko] \<and>
   fetchAllSources example_aggregator =
     (Fulfilled [btc_binance, xrp_binance, btc_coingecko], example_aggregator)"
proof -
  let ?kraken = "example_source ''Kraken'' (Rejected (Printable ''timeout''))"
  let ?coingecko = "example_source ''CoinGecko'' (Fulfilled [btc_coingecko])"
  let ?agg = "registerSource (registerSource new_DataAggregator ?kraken) ?coingecko"
  have srcs: "DataAggregator.sources ?agg = [?kraken, ?coingecko]"
    by (simp add: registerSource_def new_DataAggregator_def)
  have outcomes: "fetchData ?kraken = Rejected (Printable ''timeout'')"
    "fetchData ?coingecko = Fulfilled [btc_coingecko]"
    by (simp_all add: example_source_def)
  have "\<forall>s \<in> set (DataAggregator.sources ?agg). logged_quietly s"
    unfolding srcs by (simp add: logged_quietly_def example_source_def)
  then have "fst (fetchAllSources ?agg) = Fulfilled [btc_coingecko]"
    using fetchAllSources_isolates_failures [of ?agg ?kraken ?coingecko "Printable ''timeout''"
        "[btc_coingecko]"] srcs outcomes
    by blast
  moreover have "\<forall>s \<in> set (DataAggregator.sources example_aggregator). logged_quietly s"
    unfolding example_aggregator_sources by (simp add: logged_quietly_def example_source_def)
  then have "fetchAllSources example_aggregator =
     (Fulfilled [btc_binance, xrp_binance, btc_coingecko], example_aggregator)"
    using fetchAllSources_isolates_failures [of example_aggregator]
    by (simp add: example_aggregator_sources example_source_def)
  ultimately show ?thesis by simp
qed

text \<open>
  C2 as it is stated fails when the log call throws: of two adapters the first fails
  with a reason whose formatting throws, and \<open>fetchAllSources\<close> is rejected with what
  the formatting threw, instead of being fulfilled with the second adapter's records.
\<close>

theorem fetchAllSources_rejected_by_log_call:
  "DataAggregator.sources unprintable_aggregator =
     [example_source ''Kraken'' (Rejected (Unprintable (Printable ''inspect failed''))),
      example_source ''CoinGecko'' (Fulfilled [btc_coingecko])] \<and>
   fetchData (example_source ''Kraken'' (Rejected (Unprintable (Printable ''inspect failed'')))) =
     Rejected (Unprintable (Printable ''inspect failed'')) \<and>
   fetchData (example_source ''CoinGecko'' (Fulfilled [btc_coingecko])) =
     Fulfilled [btc_coingecko] \<and>
   fetchAllSources unprintable_aggregator =
     (Rejected (Printable ''inspect failed''), unprintable_aggregator)"
  by (simp add: fetchAllSources_unprintable)
     (simp add: unprintable_aggregator_def registerSource_def new_DataAggregator_def
       example_source_def)

text \<open>
  C3, as amended. Whenever \<open>fetchAllSources\<close> is fulfilled, \<open>aggregateData\<close> is
  fulfilled too; it emits one asset for each match group, no group is empty, and the
  asset's price is the unweighted mean of the members' converted prices as double
  arithmetic gives it: each converted price is the rounded quotient \<open>price / rate\<close>,
  they are added to 0 one by one in the order of the members, each sum rounded, and the
  sum is divided by the number of members and rounded; an overflow gives an infinity, and
  \<open>NaN\<close> spreads. The rate of a currency is its entry in the exchange-rate table, and 1
  when the currency has no entry or its entry is a zero or \<open>NaN\<close>. When the converted
  prices are finite and neither a sum nor the last quotient has to be rounded, the price
  is the arithmetic mean. (That rounding shows is \<open>double_mean_rounds\<close>: the mean of
  the doubles 0.1 and 0.2 comes out as 0.15000000000000002; \<open>number_add_overflows\<close>:
  the sum of 1e308 and 1e308 is an infinity.)
\<close>

theorem aggregateData_price_is_mean:
  "(fst (fetchAllSources this) = Fulfilled rawData \<longrightarrow>
      rawData = fetched_records this \<and>
      (\<exists>emitted. aggregateData this clock = (Fulfilled emitted, this))) \<and>
   (fst (aggregateData this clock) = Fulfilled assets \<longrightarrow>
      length assets = length (findMatches (fetched_records this) 80) \<and>
      (\<forall>k < length assets.
         snd (findMatches (fetched_records this) 80 ! k) \<noteq> [] \<and>
         NormalizedAsset.price (assets ! k) =
           double_mean
             (map (\<lambda>member. number_div (RawAssetData.price member)
                      (rate_of (exchangeRates this) (currency member)))
                (snd (findMatches (fetched_records this) 80 ! k))) \<and>
         (\<forall>xs. map (\<lambda>member. number_div (RawAssetData.price member)
                      (rate_of (exchangeRates this) (currency member)))
                 (snd (findMatches (fetched_records this) 80 ! k)) = map Finite xs \<and>
               exact_sums 0 xs \<and> is_double (Finite (sum_list xs / of_nat (length xs))) \<longrightarrow>
            NormalizedAsset.price (assets ! k) = Finite (sum_list xs / of_nat (length xs)))))"
proof -
  let ?groups = "findMatches (fetched_records this) 80"
  let ?conv = "\<lambda>member. number_div (RawAssetData.price member)
                      (rate_of (exchangeRates this) (currency member))"
  have nonempty: "snd (?groups ! k) \<noteq> []" if "k < length ?groups" for k
    using that findMatches_anchored anchored_nonempty nth_mem by blast
  have price: "NormalizedAsset.price (emitted_assets this clock ! k) =
      double_mean (map ?conv (snd (?groups ! k)))"
    if "k < length ?groups" for k
    using that by (simp add: emitted_assets_nth group_asset_def convertToUSD_rate_of)
  have exact: "NormalizedAsset.price (emitted_assets this clock ! k) =
      Finite (sum_list xs / of_nat (length xs))"
    if "k < length ?groups" "map ?conv (snd (?groups ! k)) = map Finite xs"
      "exact_sums 0 xs" "is_double (Finite (sum_list xs / of_nat (length xs)))" for k xs
  proof -
    have "map Finite xs \<noteq> []" using nonempty [OF that(1)] that(2) by (metis map_is_Nil_conv)
    then have "xs \<noteq> []" by simp
    then show ?thesis
      using price [OF that(1)] that(2-4) by (simp add: double_mean_exact)
  qed
  have "rawData = fetched_records this \<and>
      (\<exists>emitted. aggregateData this clock = (Fulfilled emitted, this))"
    if "fst (fetchAllSources this) = Fulfilled rawData"
    using that aggregateData_total [OF that] fetchAllSources_fulfilled [OF that] by blast
  moreover have "length assets = length ?groups \<and>
      (\<forall>k < length assets.
         snd (?groups ! k) \<noteq> [] \<and>
         NormalizedAsset.price (assets ! k) = double_mean (map ?conv (snd (?groups ! k))) \<and>
         (\<forall>xs. map ?conv (snd (?groups ! k)) = map Finite xs \<and>
               exact_sums 0 xs \<and> is_double (Finite (sum_list xs / of_nat (length xs))) \<longrightarrow>
            NormalizedAsset.price (assets ! k) = Finite (sum_list xs / of_nat (length xs))))"
    if "fst (aggregateData this clock) = Fulfilled assets"
  proof -
    have a: "assets = emitted_assets this clock"
      using that by (rule aggregateData_fulfilled)
    show ?thesis
      unfolding a using nonempty price exact by (simp add: emitted_assets_length)
  qed
  ultimately show ?thesis by blast
qed

text \<open>
  The example: the group of the two Bitcoin records has the converted prices
  \<open>100 / 1\<close> and \<open>90 / 0.75 = 120\<close> and the price 110; no step is rounded.
\<close>

theorem aggregateData_price_is_mean_witness:
  "map NormalizedAsset.price
     (case fst (aggregateData example_aggregator (\<lambda>k. 0)) of
        Fulfilled assets \<Rightarrow> assets | Rejected e \<Rightarrow> [] | Pending \<Rightarrow> []) =
     [double_mean [number_div (Finite 100) (Finite 1), number_div (Finite 90) (Finite (3 / 4))],
      double_mean [number_div (Finite 2) (Finite 1)]] \<and>
   double_mean [number_div (Finite 100) (Finite 1), number_div (Finite 90) (Finite (3 / 4))] =
     Finite (sum_list [100, 120] / of_nat (length [100 :: rat, 120])) \<and>
   sum_list [100 :: rat, 120] / of_nat (length [100 :: rat, 120]) = 110"
proof -
  define assets where "assets = emitted_assets example_aggregator (\<lambda>k. 0)"
  have ful: "fst (aggregateData example_aggregator (\<lambda>k. 0)) = Fulfilled assets"
    by (simp add: aggregateData_example assets_def)
  have a: "length assets = length (findMatches (fetched_records example_aggregator) 80)"
    "\<forall>k < length assets.
       NormalizedAsset.price (assets ! k) =
           double_mean
             (map (\<lambda>member. number_div (RawAssetData.price member)
                      (rate_of (exchangeRates example_aggregator) (currency member)))
                (snd (findMatches (fetched_records example_aggregator) 80 ! k))) \<and>
         (\<forall>xs. map (\<lambda>member. number_div (RawAssetData.price member)
                      (rate_of (exchangeRates example_aggregator) (currency member)))
                 (snd (findMatches (fetched_records example_aggregator) 80 ! k)) = map Finite xs \<and>
               exact_sums 0 xs \<and> is_double (Finite (sum_list xs / of_nat (length xs))) \<longrightarrow>
            NormalizedAsset.price (assets ! k) = Finite (sum_list xs / of_nat (length xs)))"
    using aggregateData_price_is_mean
      [where this = example_aggregator and clock = "\<lambda>k. 0" and assets = assets] ful
    by blast+
  have len: "length assets = 2"
    using a(1) by (simp add: example_aggregator_fields findMatches_example)
  note at = a(2) [unfolded example_aggregator_fields findMatches_example len, rule_format]
  have rates: "rate_of [(''USD'', Finite 1), (''EUR'', Finite (3 / 4))] ''USD'' = Finite 1"
    "rate_of [(''USD'', Finite 1), (''EUR'', Finite (3 / 4))] ''EUR'' = Finite (3 / 4)"
    by (simp_all add: rate_of_def falsy_def)
  have p0: "NormalizedAsset.price (assets ! 0) =
      double_mean [number_div (Finite 100) (Finite 1), number_div (Finite 90) (Finite (3 / 4))]"
    using at [of 0] by (simp add: rates btc_binance_def btc_coingecko_def)
  have p1: "NormalizedAsset.price (assets ! 1) = double_mean [number_div (Finite 2) (Finite 1)]"
    using at [of 1] by (simp add: rates xrp_binance_def)
  have "exact_sums 0 [100, 120]" "is_double (Finite (sum_list [100, 120] / of_nat (length [100 :: rat, 120])))"
    by (simp_all add: is_double_numeral)
  then have "NormalizedAsset.price (assets ! 0) =
      Finite (sum_list [100, 120] / of_nat (length [100 :: rat, 120]))"
    using at [of 0, THEN conjunct2, rule_format, of "[100, 120]"]
    by (simp add: rates btc_binance_def btc_coingecko_def number_div_examples)
  then have exact: "double_mean [number_div (Finite 100) (Finite 1), number_div (Finite 90) (Finite (3 / 4))] =
     Finite (sum_list [100, 120] / of_nat (length [100 :: rat, 120]))"
    using p0 by simp
  have "assets = [assets ! 0, assets ! 1]"
    using len by (cases assets; cases "tl assets") auto
  then have "map NormalizedAsset.price assets =
      [double_mean [number_div (Finite 100) (Finite 1), number_div (Finite 90) (Finite (3 / 4))],
       double_mean [number_div (Finite 2) (Finite 1)]]"
    using p0 p1 by (metis (no_types, lifting) list.simps(8,9))
  then show ?thesis using ful exact by simp
qed

text \<open>
  C3 as it is stated, with the rate being the table's entry whenever there is one, fails
  for an entry of 0: the record priced 90 in a currency whose rate is stored as 0 gives
  an asset of price 90, while \<open>90 / 0\<close> is \<open>Infinity\<close>, and so is the mean of that
  alone.
\<close>

theorem aggregateData_zero_rate_price:
  "aggregateData zero_rate_aggregator (\<lambda>k. 0) =
     (Fulfilled
        [\<lparr>id = ''bitcoin'', name = ''BitCoin'', symbol = ''XBT'', price = Finite 90,
          change24h = Finite 0, volume = Finite 20, marketCap = Finite 5,
          sources = [''CoinGecko''], lastUpdated = 0\<rparr>],
      zero_rate_aggregator) \<and>
   findMatches (fetched_records zero_rate_aggregator) 80 = [(''BitCoin'', [btc_coingecko])] \<and>
   RawAssetData.price btc_coingecko = Finite 90 \<and>
   rate_spec (exchangeRates zero_rate_aggregator) (currency btc_coingecko) = Finite 0 \<and>
   double_mean
     [number_div (RawAssetData.price btc_coingecko)
        (rate_spec (exchangeRates zero_rate_aggregator) (currency btc_coingecko))] = PosInf"
  by (simp add: aggregateData_zero_rate emitted_assets_zero_rate zero_rate_aggregator_fields
      findMatches_single rate_spec_def btc_coingecko_def number_div_zero double_mean_def
      double_sum_def)
     (simp add: number_add_def number_div_def is_infinity_def signed_infinity_def)

text \<open>
  C4, as amended. For every input list and every threshold of at most 100, the groups of
  \<open>findMatches\<close> partition the input: the result is the greedy clustering of the
  indices, one entry for each group; every index of the input is in exactly one of the
  groups; and taken together the groups hold every input record exactly as often as the
  input does. So no record is dropped and none is in two groups. (Above 100 no record
  ever joins a seed, and two seeds of one name share a key of the map; the amended claim
  says nothing about such thresholds.)
\<close>

theorem findMatches_partition:
  assumes "threshold \<le> 100"
  shows "findMatches products threshold =
           map (group_of products) (cluster (joins products threshold) [0..<length products]) \<and>
         mset (concat (cluster (joins products threshold) [0..<length products])) =
           mset [0..<length products] \<and>
         mset (concat (map snd (findMatches products threshold))) = mset products"
proof -
  let ?cl = "cluster (joins products threshold) [0..<length products]"
  have groups: "findMatches products threshold = map (group_of products) ?cl"
    using assms by (rule findMatches_cluster)
  have indices: "mset (concat ?cl) = mset [0..<length products]"
    by (rule mset_concat_cluster)
  have "concat (map snd (map (group_of products) ?cl)) = map (\<lambda>k. products ! k) (concat ?cl)"
    by (simp add: group_of_def comp_def map_concat)
  then have "mset (concat (map snd (findMatches products threshold))) =
      image_mset (\<lambda>k. products ! k) (mset (concat ?cl))"
    by (simp add: groups)
  also have "\<dots> = mset (map (\<lambda>k. products ! k) [0..<length products])"
    by (simp add: indices)
  also have "\<dots> = mset products" by (simp add: map_nth)
  finally show ?thesis using groups indices by simp
qed

text \<open>The theorem at threshold 80, on three records.\<close>

theorem findMatches_partition_witness:
  "(80::rat) \<le> 100 \<and>
   findMatches [example_record ''Binance'' ''Bitcoin'', example_record ''CoinGecko'' ''Bitcoin Cash'',
      example_record ''Kraken'' ''BitCoin''] 80 =
     [(''Bitcoin'', [example_record ''Binance'' ''Bitcoin'', example_record ''Kraken'' ''BitCoin'']),
      (''Bitcoin Cash'', [example_record ''CoinGecko'' ''Bitcoin Cash''])] \<and>
   mset (concat (map snd (findMatches [example_record ''Binance'' ''Bitcoin'',
      example_record ''CoinGecko'' ''Bitcoin Cash'', example_record ''Kraken'' ''BitCoin''] 80))) =
   mset [example_record ''Binance'' ''Bitcoin'', example_record ''CoinGecko'' ''Bitcoin Cash'',
      example_record ''Kraken'' ''BitCoin'']"
  using findMatches_partition [of 80 "[example_record ''Binance'' ''Bitcoin'',
      example_record ''CoinGecko'' ''Bitcoin Cash'', example_record ''Kraken'' ''BitCoin'']",
      THEN conjunct2, THEN conjunct2]
    findMatches_bitcoin
  by simp

text \<open>
  C4 as it is stated, for every threshold, fails at threshold 101: two records of the
  same name are both seeds, the second \<open>set\<close> replaces the first group, and the first
  record is in no group of the result.
\<close>

theorem findMatches_drops_record:
  "findMatches [example_record ''Binance'' ''Gold'', example_record ''CoinGecko'' ''Gold''] 101 =
     [(''Gold'', [example_record ''CoinGecko'' ''Gold''])] \<and>
   example_record ''Binance'' ''Gold'' \<noteq> example_record ''CoinGecko'' ''Gold''"
proof -
  have "calculateSimilarity ''Gold'' ''Gold'' = 100"
    by (simp add: calculateSimilarity_eq)
  then show ?thesis
    by (simp add: findMatches_def seed_groups.simps scan_candidates.simps Let_def)
qed

text \<open>
  C5, as amended. When every name's normalisation is shorter than 200 characters,
  \<open>findMatches\<close> with threshold 100 groups only exact matches: every group starts
  with its seed, whose name is the key, and every other member has a name whose
  normalisation equals that of the seed's name.
\<close>

theorem findMatches_threshold_100:
  assumes "\<forall>r \<in> set products. length (normalizeText (RawAssetData.name r)) < 200"
  shows "\<forall>(key, grp) \<in> set (findMatches products 100).
           grp \<noteq> [] \<and> RawAssetData.name (hd grp) = key \<and>
           (\<forall>r \<in> set (tl grp).
              normalizeText (RawAssetData.name r) = normalizeText (RawAssetData.name (hd grp)))"
  unfolding normalizeText_spec
proof (intro ballI, clarify)
  fix key grp assume "(key, grp) \<in> set (findMatches products 100)"
  then have "anchored products 100 (key, grp)" by (rule findMatches_anchored)
  then obtain i js where a: "i < length products" "key = RawAssetData.name (products ! i)"
    "grp = products ! i # map (\<lambda>j. products ! j) js"
    "\<forall>j \<in> set js. i < j \<and> j < length products \<and> 100 \<le> (of_int (sim products i j) :: rat)"
    unfolding anchored_def by auto
  have "normalize_spec (RawAssetData.name r) = normalize_spec (RawAssetData.name (hd grp))"
    if "r \<in> set (tl grp)" for r
  proof -
    have "r \<in> (\<lambda>j. products ! j) ` set js" using that a(3) by simp
    then obtain j where j: "j \<in> set js" "r = products ! j" by (rule imageE)
    then have "100 \<le> sim products i j" using a(4) by (metis of_int_le_iff of_int_numeral)
    moreover have "length (normalize_spec (RawAssetData.name (products ! i))) < 200"
      "length (normalize_spec (RawAssetData.name (products ! j))) < 200"
      using assms a(1,4) j(1) by (simp_all add: normalizeText_spec)
    ultimately show ?thesis using sim_100_exact [of products i j] j(2) a(3) by simp
  qed
  then show "grp \<noteq> [] \<and> RawAssetData.name (hd grp) = key \<and>
           (\<forall>r \<in> set (tl grp).
              normalize_spec (RawAssetData.name r) = normalize_spec (RawAssetData.name (hd grp)))"
    using a(2,3) by simp
qed

text \<open>The theorem on three records, two of them equal after normalisation.\<close>

theorem findMatches_threshold_100_witness:
  "findMatches [example_record ''Binance'' ''Bitcoin'', example_record ''CoinGecko'' ''Bitcoin Cash'',
      example_record ''Kraken'' ''BitCoin''] 100 =
   [(''Bitcoin'', [example_record ''Binance'' ''Bitcoin'', example_record ''Kraken'' ''BitCoin'']),
    (''Bitcoin Cash'', [example_record ''CoinGecko'' ''Bitcoin Cash''])] \<and>
   normalizeText ''BitCoin'' = normalizeText ''Bitcoin''"
proof -
  let ?ps = "[example_record ''Binance'' ''Bitcoin'', example_record ''CoinGecko'' ''Bitcoin Cash'',
      example_record ''Kraken'' ''BitCoin'']"
  have n: "normalize_spec ''Bitcoin'' = ''bitcoin''" "normalize_spec ''Bitcoin Cash'' = ''bitcoincash''"
    "normalize_spec ''BitCoin'' = ''bitcoin''" by code_simp+
  have short: "\<forall>r \<in> set ?ps. length (normalizeText (RawAssetData.name r)) < 200"
    by (simp add: n normalizeText_spec)
  have groups: "findMatches ?ps 100 =
     [(''Bitcoin'', [example_record ''Binance'' ''Bitcoin'', example_record ''Kraken'' ''BitCoin'']),
      (''Bitcoin Cash'', [example_record ''CoinGecko'' ''Bitcoin Cash''])]"
    by (simp add: findMatches_def seed_groups.simps scan_candidates.simps Let_def
      calculateSimilarity_examples)
  show ?thesis
    using findMatches_threshold_100 [OF short] unfolding groups by simp
qed

text \<open>
  C5 as it is stated fails on long names: two names of 400 characters that differ in
  the last one score \<open>Math.round(99.75) = 100\<close>, and threshold 100 puts them in one
  group although their normalisations differ.
\<close>

theorem findMatches_threshold_100_long_names:
  "findMatches [example_record ''Binance'' (replicate 399 CHR ''a'' @ ''a''),
                example_record ''CoinGecko'' (replicate 399 CHR ''a'' @ ''b'')] 100 =
     [(replicate 399 CHR ''a'' @ ''a'',
       [example_record ''Binance'' (replicate 399 CHR ''a'' @ ''a''),
        example_record ''CoinGecko'' (replicate 399 CHR ''a'' @ ''b'')])] \<and>
   normalizeText (replicate 399 CHR ''a'' @ ''b'') \<noteq> normalizeText (replicate 399 CHR ''a'' @ ''a'')"
proof -
  have az: "is_az09 CHR ''a''" "is_az09 CHR ''b''"
    by (simp_all add: is_az09_def code_unit_def)
  have n: "normalize_spec (replicate 399 CHR ''a'' @ ''a'') = replicate 399 CHR ''a'' @ ''a''"
    "normalize_spec (replicate 399 CHR ''a'' @ ''b'') = replicate 399 CHR ''a'' @ ''b''"
    using az by (simp_all add: normalize_spec_az09)
  show ?thesis
    unfolding normalizeText_spec n
    by (simp add: findMatches_def seed_groups.simps scan_candidates.simps Let_def
      calculateSimilarity_long)
qed

text \<open>
  C6. \<open>generateId\<close> computes the slug of a name: the name lowercased, every run of
  characters outside \<open>[a-z0-9]\<close> collapsed into one dash, the dashes at both ends
  trimmed; the name \<open>Binance Coin (BNB)\<close> gives \<open>binance-coin-bnb\<close>. Whenever
  \<open>fetchAllSources\<close> is fulfilled, \<open>aggregateData\<close> is fulfilled too, and the id of
  each asset it emits is the slug of the name of its group's seed, the head of the
  group, as the record has it.
\<close>

theorem generateId_is_slug:
  "generateId name' = slug_spec name' \<and>
   generateId ''Binance Coin (BNB)'' = ''binance-coin-bnb'' \<and>
   (fst (fetchAllSources this) = Fulfilled rawData \<longrightarrow>
      rawData = fetched_records this \<and>
      (\<exists>emitted. aggregateData this clock = (Fulfilled emitted, this))) \<and>
   (fst (aggregateData this clock) = Fulfilled assets \<longrightarrow>
      length assets = length (findMatches (fetched_records this) 80) \<and>
      (\<forall>k < length assets.
         anchored (fetched_records this) 80 (findMatches (fetched_records this) 80 ! k) \<and>
         NormalizedAsset.id (assets ! k) =
           slug_spec (RawAssetData.name (hd (snd (findMatches (fetched_records this) 80 ! k))))))"
proof -
  let ?groups = "findMatches (fetched_records this) 80"
  have anch: "anchored (fetched_records this) 80 (?groups ! k)" if "k < length ?groups" for k
    using that findMatches_anchored nth_mem by blast
  have ids: "NormalizedAsset.id (emitted_assets this clock ! k) =
      slug_spec (RawAssetData.name (hd (snd (?groups ! k))))"
    if "k < length ?groups" for k
    using that anchored_head [OF anch [OF that]]
    by (simp add: emitted_assets_nth group_asset_def generateId_slug_spec)
  have "rawData = fetched_records this \<and>
      (\<exists>emitted. aggregateData this clock = (Fulfilled emitted, this))"
    if "fst (fetchAllSources this) = Fulfilled rawData"
    using that aggregateData_total [OF that] fetchAllSources_fulfilled [OF that] by blast
  moreover have "length assets = length ?groups \<and>
      (\<forall>k < length assets.
         anchored (fetched_records this) 80 (?groups ! k) \<and>
         NormalizedAsset.id (assets ! k) = slug_spec (RawAssetData.name (hd (snd (?groups ! k)))))"
    if "fst (aggregateData this clock) = Fulfilled assets"
  proof -
    have a: "assets = emitted_assets this clock"
      using that by (rule aggregateData_fulfilled)
    show ?thesis
      unfolding a using anch ids by (simp add: emitted_assets_length)
  qed
  ultimately show ?thesis
    by (simp add: generateId_slug_spec [symmetric] generateId_examples)
qed

text \<open>The slug of the specification's example, and the ids of the example's two assets.\<close>

theorem generateId_is_slug_witness:
  "slug_spec ''Binance Coin (BNB)'' = ''binance-coin-bnb'' \<and>
   map NormalizedAsset.id
     (case fst (aggregateData example_aggregator (\<lambda>k. 0)) of
        Fulfilled assets \<Rightarrow> assets | Rejected e \<Rightarrow> [] | Pending \<Rightarrow> []) =
     [''bitcoin'', ''xrp''] \<and>
   map (\<lambda>e. slug_spec (RawAssetData.name (hd (snd e))))
     (findMatches (fetched_records example_aggregator) 80) = [''bitcoin'', ''xrp'']"
proof -
  define assets where "assets = emitted_assets example_aggregator (\<lambda>k. 0)"
  have ful: "fst (aggregateData example_aggregator (\<lambda>k. 0)) = Fulfilled assets"
    by (simp add: aggregateData_example assets_def)
  note slug = generateId_is_slug
      [where this = example_aggregator and clock = "\<lambda>k. 0" and assets = assets]
  have slugs: "slug_spec ''Binance Coin (BNB)'' = ''binance-coin-bnb''"
    "slug_spec ''Bitcoin'' = ''bitcoin''" "slug_spec ''XRP'' = ''xrp''"
    using slug [where name' = "''Binance Coin (BNB)''"] slug [where name' = "''Bitcoin''"]
      slug [where name' = "''XRP''"]
    by (simp_all add: generateId_examples)
  have a: "length assets = length (findMatches (fetched_records example_aggregator) 80)"
    "\<forall>k < length assets.
       NormalizedAsset.id (assets ! k) =
         slug_spec (RawAssetData.name
           (hd (snd (findMatches (fetched_records example_aggregator) 80 ! k))))"
    using slug [where name' = "[]"] ful by blast+
  have len: "length assets = 2"
    using a(1) by (simp add: example_aggregator_fields findMatches_example)
  note at = a(2) [unfolded example_aggregator_fields findMatches_example len, rule_format]
  have "NormalizedAsset.id (assets ! 0) = ''bitcoin''"
    using at [of 0] by (simp add: slugs)
  moreover have "NormalizedAsset.id (assets ! 1) = ''xrp''"
    using at [of 1] by (simp add: slugs)
  moreover have "assets = [assets ! 0, assets ! 1]"
    using len by (cases assets; cases "tl assets") auto
  ultimately have "map NormalizedAsset.id assets = [''bitcoin'', ''xrp'']"
    by (metis (no_types, lifting) list.simps(8,9))
  then show ?thesis
    using ful slugs by (simp add: example_aggregator_fields findMatches_example)
qed

text \<open>
  C7. The similarity score is symmetric: for every pair of names,
  \<open>calculateSimilarity a b\<close> and \<open>calculateSimilarity b a\<close> are the same number.
\<close>

theorem calculateSimilarity_symmetric:
  "calculateSimilarity a b = calculateSimilarity b a"
proof -
  have "levenshteinDistance (normalizeText a) (normalizeText b) =
        levenshteinDistance (normalizeText b) (normalizeText a)"
    by (simp add: levenshteinDistance_edit_distance edit_distance_sym)
  moreover have "normalizeText a = normalizeText b \<longleftrightarrow> normalizeText b = normalizeText a"
    by (rule eq_commute)
  moreover have "max (length (normalizeText a)) (length (normalizeText b)) =
      max (length (normalizeText b)) (length (normalizeText a))"
    by (rule max.commute)
  ultimately show ?thesis
    unfolding calculateSimilarity_def Let_def by presburger
qed

text \<open>
  C8, as amended. \<open>convertToUSD\<close> never divides by zero: its divisor is not a zero.
  Where the table maps the currency to a rate \<open>r\<close> that is neither a zero nor \<open>NaN\<close>
  the result is the double quotient \<open>price / r\<close>; where the currency is absent, or
  mapped to a zero or to \<open>NaN\<close>, the result is the price unchanged.
\<close>

theorem convertToUSD_never_divides_by_zero:
  "num_or (map_get (exchangeRates this) currency') (Finite 1) \<noteq> Finite 0 \<and>
   num_or (map_get (exchangeRates this) currency') (Finite 1) \<noteq> NegZero \<and>
   convertToUSD this price' currency' =
     number_div price' (num_or (map_get (exchangeRates this) currency') (Finite 1)) \<and>
   (map_get (exchangeRates this) currency' = Some r \<and> r \<noteq> Finite 0 \<and> r \<noteq> NegZero \<and> r \<noteq> NaN
      \<longrightarrow> convertToUSD this price' currency' = number_div price' r) \<and>
   (is_double price' \<and>
    (map_get (exchangeRates this) currency' = None \<or>
     map_get (exchangeRates this) currency' = Some (Finite 0) \<or>
     map_get (exchangeRates this) currency' = Some NegZero \<or>
     map_get (exchangeRates this) currency' = Some NaN)
      \<longrightarrow> convertToUSD this price' currency' = price')"
proof -
  have divisor: "convertToUSD this price' currency' =
      number_div price' (num_or (map_get (exchangeRates this) currency') (Finite 1))"
    by (simp add: convertToUSD_def)
  have "num_or x (Finite 1) \<noteq> Finite 0" "num_or x (Finite 1) \<noteq> NegZero" for x
    by (cases x; simp add: num_or_def falsy_def)+
  moreover have "num_or (Some r) (Finite 1) = r" if "r \<noteq> Finite 0" "r \<noteq> NegZero" "r \<noteq> NaN"
    using that by (simp add: num_or_def falsy_def)
  moreover have "num_or None (Finite 1) = Finite 1" "num_or (Some (Finite 0)) (Finite 1) = Finite 1"
    "num_or (Some NegZero) (Finite 1) = Finite 1" "num_or (Some NaN) (Finite 1) = Finite 1"
    by (simp_all add: num_or_def falsy_def)
  moreover have "number_div price' (Finite 1) = price'" if "is_double price'"
    using that by (rule number_div_one)
  ultimately show ?thesis
    unfolding divisor by auto
qed

text \<open>
  The double 0.9 as the euro's rate, a rate stored as 0, a rate stored as \<open>NaN\<close>, and a
  currency without a rate: 100 euros are 111.11111111111111 dollars, the rounded
  quotient, and the other prices are left as they are.
\<close>

theorem convertToUSD_never_divides_by_zero_witness:
  "convertToUSD
     (updateExchangeRates new_DataAggregator
        [(''EUR'', double_0_9), (''JPY'', Finite 0), (''CHF'', NaN)]) (Finite 100) ''EUR''
     = Finite (3909374676536889 / 35184372088832) \<and>
   convertToUSD
     (updateExchangeRates new_DataAggregator
        [(''EUR'', double_0_9), (''JPY'', Finite 0), (''CHF'', NaN)]) (Finite 100) ''JPY''
     = Finite 100 \<and>
   convertToUSD
     (updateExchangeRates new_DataAggregator
        [(''EUR'', double_0_9), (''JPY'', Finite 0), (''CHF'', NaN)]) (Finite 100) ''CHF''
     = Finite 100 \<and>
   convertToUSD
     (updateExchangeRates new_DataAggregator
        [(''EUR'', double_0_9), (''JPY'', Finite 0), (''CHF'', NaN)]) (Finite 100) ''GBP''
     = Finite 100"
proof -
  let ?agg = "updateExchangeRates new_DataAggregator
        [(''EUR'', double_0_9), (''JPY'', Finite 0), (''CHF'', NaN)]"
  have rates: "exchangeRates ?agg =
      [(''USD'', Finite 1), (''EUR'', double_0_9), (''JPY'', Finite 0), (''CHF'', NaN)]"
    by (simp add: updateExchangeRates_def new_DataAggregator_def)
  have get: "map_get (exchangeRates ?agg) ''EUR'' = Some double_0_9"
    "map_get (exchangeRates ?agg) ''JPY'' = Some (Finite 0)"
    "map_get (exchangeRates ?agg) ''CHF'' = Some NaN"
    "map_get (exchangeRates ?agg) ''GBP'' = None"
    by (simp_all add: rates map_get_def)
  have nz: "double_0_9 \<noteq> Finite 0" "double_0_9 \<noteq> NegZero" "double_0_9 \<noteq> NaN"
    by (simp_all add: double_0_9_def)
  have d: "is_double (Finite 100)" by (simp add: is_double_numeral)
  have "convertToUSD ?agg (Finite 100) ''EUR'' = number_div (Finite 100) double_0_9"
    using convertToUSD_never_divides_by_zero
        [where this = ?agg and currency' = "''EUR''" and r = double_0_9 and price' = "Finite 100"]
      get(1) nz by blast
  moreover have "convertToUSD ?agg (Finite 100) ''JPY'' = Finite 100"
    using convertToUSD_never_divides_by_zero
        [where this = ?agg and currency' = "''JPY''" and price' = "Finite 100"] get(2) d
    by blast
  moreover have "convertToUSD ?agg (Finite 100) ''CHF'' = Finite 100"
    using convertToUSD_never_divides_by_zero
        [where this = ?agg and currency' = "''CHF''" and price' = "Finite 100"] get(3) d
    by blast
  moreover have "convertToUSD ?agg (Finite 100) ''GBP'' = Finite 100"
    using convertToUSD_never_divides_by_zero
        [where this = ?agg and currency' = "''GBP''" and price' = "Finite 100"] get(4) d
    by blast
  ultimately show ?thesis
    by (simp only: number_div_100_0_9)
qed

text \<open>
  C8 as it is stated fails for a rate stored as \<open>NaN\<close>, a number that is not zero: the
  result is the price, 100, and not the quotient of the price by the rate, which is
  \<open>NaN\<close>.
\<close>

theorem convertToUSD_nan_rate:
  "map_get (exchangeRates nan_rate_aggregator) ''EUR'' = Some NaN \<and>
   NaN \<noteq> Finite 0 \<and> NaN \<noteq> NegZero \<and>
   convertToUSD nan_rate_aggregator (Finite 100) ''EUR'' = Finite 100 \<and>
   number_div (Finite 100) NaN = NaN"
proof -
  have rates: "exchangeRates nan_rate_aggregator = [(''USD'', Finite 1), (''EUR'', NaN)]"
    by (simp add: nan_rate_aggregator_def updateExchangeRates_def new_DataAggregator_def)
  have "convertToUSD nan_rate_aggregator (Finite 100) ''EUR'' = Finite 100"
    by (simp add: convertToUSD_def rates map_get_def num_or_def falsy_def number_div_examples)
  then show ?thesis
    by (simp add: rates map_get_def number_div_NaN)
qed

text \<open>
  C9. The symbol of each emitted asset comes from the seed of its group alone. The
  groups are those of the greedy clustering of the input's indices; whenever
  \<open>fetchAllSources\<close> is fulfilled, \<open>aggregateData\<close> is fulfilled too, and it emits
  one asset for each group; the first index of a group, its seed, is the least of all
  indices in this and the later groups, that is the earliest record not assigned to an
  earlier group; and the asset's symbol is the symbol of the record at the seed when it
  has one and the empty string otherwise, whatever symbols the other members carry.
\<close>

theorem aggregateData_symbol_from_seed:
  "(fst (fetchAllSources this) = Fulfilled rawData \<longrightarrow>
      rawData = fetched_records this \<and>
      (\<exists>emitted. aggregateData this clock = (Fulfilled emitted, this))) \<and>
   findMatches (fetched_records this) 80 =
     map (group_of (fetched_records this))
       (cluster (joins (fetched_records this) 80) [0..<length (fetched_records this)]) \<and>
   (fst (aggregateData this clock) = Fulfilled assets \<longrightarrow>
     length assets =
       length (cluster (joins (fetched_records this) 80) [0..<length (fetched_records this)]) \<and>
     (\<forall>k < length assets.
        cluster (joins (fetched_records this) 80) [0..<length (fetched_records this)] ! k \<noteq> [] \<and>
        (\<forall>j \<in> set (concat (drop k
             (cluster (joins (fetched_records this) 80) [0..<length (fetched_records this)]))).
           hd (cluster (joins (fetched_records this) 80) [0..<length (fetched_records this)] ! k)
             \<le> j) \<and>
        NormalizedAsset.symbol (assets ! k) =
          (case RawAssetData.symbol (fetched_records this !
                  hd (cluster (joins (fetched_records this) 80)
                        [0..<length (fetched_records this)] ! k)) of
             None \<Rightarrow> [] | Some s \<Rightarrow> s)))"
proof -
  let ?records = "fetched_records this"
  let ?cl = "cluster (joins ?records 80) [0..<length ?records]"
  let ?groups = "findMatches ?records 80"
  let ?assets = "emitted_assets this clock"
  have groups: "?groups = map (group_of ?records) ?cl"
    by (rule findMatches_cluster) simp
  have nonempty: "?cl ! k \<noteq> []" if "k < length ?cl" for k
    using that cluster_nonempty nth_mem by blast
  have least: "hd (?cl ! k) \<le> j" if "k < length ?cl" "j \<in> set (concat (drop k ?cl))" for k j
    using that by (intro cluster_head_least) simp_all
  have symbols: "NormalizedAsset.symbol (?assets ! k) =
      (case RawAssetData.symbol (?records ! hd (?cl ! k)) of None \<Rightarrow> [] | Some s \<Rightarrow> s)"
    if "k < length ?cl" for k
  proof -
    have "k < length ?groups" using that by (simp add: groups)
    then have "?assets ! k = group_asset this (clock k) (?groups ! k)"
      by (rule emitted_assets_nth)
    then have "?assets ! k = group_asset this (clock k) (group_of ?records (?cl ! k))"
      using that by (simp add: groups)
    moreover have "hd (map (\<lambda>k. ?records ! k) (?cl ! k)) = ?records ! hd (?cl ! k)"
      using nonempty [OF that] by (simp add: hd_map)
    ultimately show ?thesis
      by (simp add: group_asset_def group_of_def str_or_def split: option.splits)
  qed
  have len: "length ?assets = length ?cl"
    by (simp add: emitted_assets_length groups)
  have "rawData = fetched_records this \<and>
      (\<exists>emitted. aggregateData this clock = (Fulfilled emitted, this))"
    if "fst (fetchAllSources this) = Fulfilled rawData"
    using that aggregateData_total [OF that] fetchAllSources_fulfilled [OF that] by blast
  moreover have "length assets = length ?cl \<and>
     (\<forall>k < length assets.
        ?cl ! k \<noteq> [] \<and>
        (\<forall>j \<in> set (concat (drop k ?cl)). hd (?cl ! k) \<le> j) \<and>
        NormalizedAsset.symbol (assets ! k) =
          (case RawAssetData.symbol (?records ! hd (?cl ! k)) of None \<Rightarrow> [] | Some s \<Rightarrow> s))"
    if "fst (aggregateData this clock) = Fulfilled assets"
  proof -
    have a: "assets = ?assets"
      using that by (rule aggregateData_fulfilled)
    show ?thesis
      unfolding a using len nonempty least symbols by (simp only:, blast)
  qed
  ultimately show ?thesis
    using groups by (simp only:, blast)
qed

text \<open>
  The example: the groups are the records 0 and 2, and the record 1; the seed of the
  first group has symbol \<open>BTC\<close> and its other member \<open>XBT\<close>; the seed of the second
  group has none.
\<close>

theorem aggregateData_symbol_from_seed_witness:
  "cluster (joins (fetched_records example_aggregator) 80)
     [0..<length (fetched_records example_aggregator)] = [[0, 2], [1]] \<and>
   fetched_records example_aggregator = [btc_binance, xrp_binance, btc_coingecko] \<and>
   RawAssetData.symbol btc_binance = Some ''BTC'' \<and>
   RawAssetData.symbol btc_coingecko = Some ''XBT'' \<and>
   RawAssetData.symbol xrp_binance = None \<and>
   map NormalizedAsset.symbol
     (case fst (aggregateData example_aggregator (\<lambda>k. 0)) of
        Fulfilled assets \<Rightarrow> assets | Rejected e \<Rightarrow> [] | Pending \<Rightarrow> []) =
     [''BTC'', []]"
proof -
  have cl: "cluster (joins (fetched_records example_aggregator) 80)
     [0..<length (fetched_records example_aggregator)] = [[0, 2], [1]]"
    unfolding example_aggregator_fields by (rule cluster_example)
  define assets where "assets = emitted_assets example_aggregator (\<lambda>k. 0)"
  have ful: "fst (aggregateData example_aggregator (\<lambda>k. 0)) = Fulfilled assets"
    by (simp add: aggregateData_example assets_def)
  have a: "length assets = length (cluster (joins (fetched_records example_aggregator) 80)
       [0..<length (fetched_records example_aggregator)])"
    "\<forall>k < length assets.
        NormalizedAsset.symbol (assets ! k) =
          (case RawAssetData.symbol (fetched_records example_aggregator !
                  hd (cluster (joins (fetched_records example_aggregator) 80)
                        [0..<length (fetched_records example_aggregator)] ! k)) of
             None \<Rightarrow> [] | Some s \<Rightarrow> s)"
    using aggregateData_symbol_from_seed
      [where this = example_aggregator and clock = "\<lambda>k. 0" and assets = assets] ful
    by blast+
  have len: "length assets = 2"
    using a(1) unfolding cl by simp
  note at = a(2) [unfolded cl len, rule_format]
  have "NormalizedAsset.symbol (assets ! 0) = ''BTC''"
    using at [of 0] by (simp add: example_aggregator_fields btc_binance_def)
  moreover have "NormalizedAsset.symbol (assets ! 1) = []"
    using at [of 1] by (simp add: example_aggregator_fields xrp_binance_def)
  moreover have "assets = [assets ! 0, assets ! 1]"
    using len by (cases assets; cases "tl assets") auto
  ultimately have "map NormalizedAsset.symbol assets = [''BTC'', []]"
    by (metis (no_types, lifting) list.simps(8,9))
  moreover have "RawAssetData.symbol btc_binance = Some ''BTC''"
    "RawAssetData.symbol btc_coingecko = Some ''XBT''" "RawAssetData.symbol xrp_binance = None"
    by (simp_all add: btc_binance_def btc_coingecko_def xrp_binance_def)
  ultimately show ?thesis
    using ful cl by (simp add: example_aggregator_fields)
qed

text \<open>
  C10. \<open>fetchAllSources\<close> and \<open>aggregateData\<close> leave the aggregator as it was,
  however they end. \<open>registerSource\<close> appends one adapter and keeps the rates;
  \<open>updateExchangeRates\<close> keeps the adapters, and afterwards a currency has the last rate
  given for it in the update, or its old rate when the update has none: the keys of the
  table are the old keys and the update's, so no entry is removed.
\<close>

theorem configuration_frame:
  "snd (fetchAllSources this) = this \<and>
   snd (aggregateData this clock) = this \<and>
   DataAggregator.sources (registerSource this source') = DataAggregator.sources this @ [source'] \<and>
   exchangeRates (registerSource this source') = exchangeRates this \<and>
   DataAggregator.sources (updateExchangeRates this rates) = DataAggregator.sources this \<and>
   (\<forall>c. map_get (exchangeRates (updateExchangeRates this rates)) c =
      (case map_of (rev rates) c of
         Some r \<Rightarrow> Some r
       | None \<Rightarrow> map_get (exchangeRates this) c)) \<and>
   fst ` set (exchangeRates (updateExchangeRates this rates)) =
     fst ` set (exchangeRates this) \<union> fst ` set rates"
proof -
  have "snd (fetchAllSources this) = this" "snd (aggregateData this clock) = this"
    by (simp_all add: fetchAllSources_snd aggregateData_snd)
  moreover have "DataAggregator.sources (registerSource this source') =
      DataAggregator.sources this @ [source']"
    "exchangeRates (registerSource this source') = exchangeRates this"
    by (simp_all add: registerSource_def)
  moreover have "DataAggregator.sources (updateExchangeRates this rates) =
      DataAggregator.sources this"
    by (simp add: updateExchangeRates_def)
  moreover have "map_get (exchangeRates (updateExchangeRates this rates)) c =
      (case map_of (rev rates) c of
         Some r \<Rightarrow> Some r
       | None \<Rightarrow> map_get (exchangeRates this) c)" for c
    by (simp add: updateExchangeRates_def map_get_def map_of_fold_map_set map_add_def
        split: option.splits)
  moreover have "fst ` set (exchangeRates (updateExchangeRates this rates)) =
      fst ` set (exchangeRates this) \<union> fst ` set rates"
    by (simp add: updateExchangeRates_def keys_fold_map_set)
  ultimately show ?thesis by blast
qed

text \<open>
  The theorem on the example aggregator, and on the aggregator whose call is rejected.
\<close>

theorem configuration_frame_witness:
  "snd (fetchAllSources example_aggregator) = example_aggregator \<and>
   snd (aggregateData example_aggregator (\<lambda>k. 0)) = example_aggregator \<and>
   snd (aggregateData unprintable_aggregator (\<lambda>k. 0)) = unprintable_aggregator \<and>
   exchangeRates
     (updateExchangeRates example_aggregator [(''EUR'', Finite (1 / 2)), (''JPY'', Finite 150)]) =
     [(''USD'', Finite 1), (''EUR'', Finite (1 / 2)), (''JPY'', Finite 150)] \<and>
   length (DataAggregator.sources
      (registerSource example_aggregator (example_source ''Extra'' (Fulfilled [])))) = 4"
proof -
  have "exchangeRates
     (updateExchangeRates example_aggregator [(''EUR'', Finite (1 / 2)), (''JPY'', Finite 150)]) =
     [(''USD'', Finite 1), (''EUR'', Finite (1 / 2)), (''JPY'', Finite 150)]"
    by (simp add: updateExchangeRates_def example_aggregator_fields)
  moreover have "length (DataAggregator.sources example_aggregator) = 3"
    by (simp add: example_aggregator_sources)
  ultimately show ?thesis
    using configuration_frame [of example_aggregator "\<lambda>k. 0"
        "example_source ''Extra'' (Fulfilled [])" "[]"]
      configuration_frame [of unprintable_aggregator "\<lambda>k. 0"
        "example_source ''Extra'' (Fulfilled [])" "[]"]
    by simp
qed

end
